theory Spec2Isabelle
  imports Complex_Main "HOL-Library.Multiset"
begin

section \<open>Column types (lib/column-types)\<close>

text \<open>
  The closed enumeration \<^verbatim>\<open>COLUMN_TYPES\<close>; the constructor \<open>T_x\<close> stands for the
  string literal \<^verbatim>\<open>"x"\<close> of the source.
\<close>

datatype ColumnType =
  T_text | T_long_text | T_checkbox | T_select | T_date
  | T_number | T_phone | T_email | T_currency | T_percent

text \<open>
  Cell values are \<^verbatim>\<open>unknown\<close> in the source. The model keeps the primitive values a
  cell can hold; the number type \<open>'n\<close> is left abstract (an IEEE double in the source).
\<close>

datatype 'n jsval = JUndefined | JNull | JBool bool | JNum 'n | JStr string

text \<open>
  \<^verbatim>\<open>interface ColumnConfig { key: string; type: ColumnType; options?: string[] }\<close>.
  An absent \<^verbatim>\<open>options\<close> and \<^verbatim>\<open>options: undefined\<close> are both \<open>None\<close>.
\<close>

record ColumnConfig =
  key :: string
  type :: ColumnType
  options :: "string list option"

fun COLUMN_TYPE_LABELS :: "ColumnType \<Rightarrow> string" where
  "COLUMN_TYPE_LABELS T_text = ''Text''"
| "COLUMN_TYPE_LABELS T_long_text = ''Long text''"
| "COLUMN_TYPE_LABELS T_checkbox = ''Checkbox''"
| "COLUMN_TYPE_LABELS T_select = ''Select''"
| "COLUMN_TYPE_LABELS T_date = ''Date''"
| "COLUMN_TYPE_LABELS T_number = ''Number''"
| "COLUMN_TYPE_LABELS T_phone = ''Phone number''"
| "COLUMN_TYPE_LABELS T_email = ''Email''"
| "COLUMN_TYPE_LABELS T_currency = ''Currency''"
| "COLUMN_TYPE_LABELS T_percent = ''Percent''"

fun getDefaultValue :: "ColumnType \<Rightarrow> 'n jsval" where
  "getDefaultValue T_checkbox = JBool False"
| "getDefaultValue T_number = JStr []"
| "getDefaultValue T_currency = JStr []"
| "getDefaultValue T_percent = JStr []"
| "getDefaultValue _ = JStr []"

subsection \<open>Host (JavaScript) operations\<close>

text \<open>
  \<^verbatim>\<open>a ?? b\<close> on the result of a property read: a missing property reads as
  \<^verbatim>\<open>undefined\<close>, and \<^verbatim>\<open>undefined\<close> and \<^verbatim>\<open>null\<close> fall through to \<open>b\<close>.
\<close>

fun nullish :: "'n jsval option \<Rightarrow> 'n jsval \<Rightarrow> 'n jsval" where
  "nullish None d = d"
| "nullish (Some JUndefined) d = d"
| "nullish (Some JNull) d = d"
| "nullish (Some v) d = v"

text \<open>
  \<^verbatim>\<open>String(value)\<close>; the rendering of a number is a parameter.
\<close>

fun String_of :: "('n \<Rightarrow> string) \<Rightarrow> 'n jsval \<Rightarrow> string" where
  "String_of numStr JUndefined = ''undefined''"
| "String_of numStr JNull = ''null''"
| "String_of numStr (JBool b) = (if b then ''true'' else ''false'')"
| "String_of numStr (JNum n) = numStr n"
| "String_of numStr (JStr s) = s"

text \<open>
  \<^verbatim>\<open>Array.prototype.slice\<close> and \<^verbatim>\<open>String.prototype.slice\<close>: a negative index counts
  from the end, every index is clamped to the length.
\<close>

definition clampIdx :: "int \<Rightarrow> nat \<Rightarrow> nat" where
  "clampIdx i len = (if i < 0 then nat (max 0 (int len + i)) else min (nat i) len)"

definition slice :: "'a list \<Rightarrow> int \<Rightarrow> int \<Rightarrow> 'a list" where
  "slice xs b e =
     (let len = length xs; from = clampIdx b len; to = clampIdx e len
      in take (to - from) (drop from xs))"

definition sliceFrom :: "'a list \<Rightarrow> int \<Rightarrow> 'a list" where
  "sliceFrom xs b = drop (clampIdx b (length xs)) xs"

text \<open>\<^verbatim>\<open>Array.prototype.indexOf\<close>: the first index of the element, or \<open>-1\<close>.\<close>

fun indexOf :: "'a list \<Rightarrow> 'a \<Rightarrow> int" where
  "indexOf [] x = - 1"
| "indexOf (y # ys) x =
     (if y = x then 0 else (let r = indexOf ys x in if r = - 1 then - 1 else r + 1))"

text \<open>
  \<^verbatim>\<open>String.prototype.trim\<close> removes white space and line terminators at both ends.
  Strings are lists of 8-bit characters here, so the white space of the model is the
  part of JavaScript's below U+0100: TAB, LF, VT, FF, CR, SPACE and NBSP.
\<close>

definition is_space :: "char \<Rightarrow> bool" where
  "is_space c =
     (c \<in> set [CHR 0x09, CHR 0x0A, CHR 0x0B, CHR 0x0C, CHR 0x0D, CHR 0x20, CHR 0xA0])"

definition trim :: "string \<Rightarrow> string" where
  "trim s = rev (dropWhile is_space (rev (dropWhile is_space s)))"

text \<open>The regular expression class \<^verbatim>\<open>\D\<close> is the complement of \<^verbatim>\<open>[0-9]\<close>.\<close>

definition is_digit :: "char \<Rightarrow> bool" where
  "is_digit c = (c \<in> set ''0123456789'')"

text \<open>
  A template literal \<^verbatim>\<open>${i}\<close> of a loop counter: the decimal digits of a natural
  number (the counters start at 2 and are incremented by 1).
\<close>

definition digit_char :: "nat \<Rightarrow> char" where
  "digit_char d = ''0123456789'' ! d"

fun show_nat :: "nat \<Rightarrow> string" where
  "show_nat n =
     (if n < 10 then [digit_char n] else show_nat (n div 10) @ [digit_char (n mod 10)])"

declare show_nat.simps [simp del]

subsection \<open>formatCellValue\<close>

text \<open>
  The library calls of \<^verbatim>\<open>formatCellValue\<close> are parameters:
  \<^verbatim>\<open>String\<close> of a number, \<^verbatim>\<open>Number(value)\<close> with \<^verbatim>\<open>isNaN\<close>, the two
  \<^verbatim>\<open>toLocaleString\<close> renderings, and \<^verbatim>\<open>new Date\<close> with its validity test and
  \<^verbatim>\<open>toLocaleDateString\<close>.
\<close>

record ('n, 'd) host =
  numToString :: "'n \<Rightarrow> string"
  toNumber :: "'n jsval \<Rightarrow> 'n"
  isNaN :: "'n \<Rightarrow> bool"
  currencyLocaleString :: "'n \<Rightarrow> string"
  numberLocaleString :: "'n \<Rightarrow> string"
  newDate :: "string \<Rightarrow> 'd"
  invalidDate :: "'d \<Rightarrow> bool"
  localeDateString :: "'d \<Rightarrow> string"

definition formatCellValue :: "('n, 'd) host \<Rightarrow> 'n jsval \<Rightarrow> ColumnType \<Rightarrow> string" where
  "formatCellValue h v t =
     (if v = JUndefined \<or> v = JNull \<or> v = JStr [] then []
      else case t of
        T_currency \<Rightarrow>
          (let num = toNumber h v in
           if isNaN h num then String_of (numToString h) v
           else ''$'' @ currencyLocaleString h num)
      | T_percent \<Rightarrow>
          (let num = toNumber h v in
           if isNaN h num then String_of (numToString h) v
           else numToString h num @ ''%'')
      | T_phone \<Rightarrow>
          (let digits = filter is_digit (String_of (numToString h) v) in
           if length digits = 10 then
             ''('' @ slice digits 0 3 @ '') '' @ slice digits 3 6 @ ''-'' @ sliceFrom digits 6
           else if length digits = 11 \<and> take 1 digits = ''1'' then
             ''+1 ('' @ slice digits 1 4 @ '') '' @ slice digits 4 7 @ ''-''
               @ sliceFrom digits 7
           else String_of (numToString h) v)
      | T_date \<Rightarrow>
          (let d = newDate h (String_of (numToString h) v) in
           if invalidDate h d then String_of (numToString h) v
           else localeDateString h d)
      | T_number \<Rightarrow>
          (let num = toNumber h v in
           if isNaN h num then String_of (numToString h) v
           else numberLocaleString h num)
      | _ \<Rightarrow> String_of (numToString h) v)"

section \<open>The table component (components/data-table)\<close>

text \<open>
  \<^verbatim>\<open>type Row = Record<string, unknown>\<close>: a partial map from property names to values.
  A property that is present with the value \<^verbatim>\<open>undefined\<close> is \<open>Some JUndefined\<close>, a
  missing one is \<open>None\<close>. Reading a missing property gives \<^verbatim>\<open>undefined\<close>; the
  members that a row inherits from \<^verbatim>\<open>Object.prototype\<close> (such as \<^verbatim>\<open>toString\<close>) are
  not values of the model, so what is proved about the value read under a key is
  proved for rows that have the entry, or for keys that are no such member.
\<close>

type_synonym 'n Row = "string \<rightharpoonup> 'n jsval"

datatype Side = Left | Right

datatype PendingAction = Edit string | Insert string Side

datatype AggregateMode = M_sum | M_average | M_median

text \<open>An entry \<^verbatim>\<open>{ id, desc }\<close> of the \<^verbatim>\<open>SortingState\<close> array.\<close>

datatype ColumnSort = ColumnSort (sort_id: string) (desc: bool)

text \<open>The \<^verbatim>\<open>useState\<close> cells of \<^verbatim>\<open>DataTable\<close>.\<close>

record 'n state =
  columnConfigs :: "ColumnConfig list"
  rows :: "'n Row list"
  sorting :: "ColumnSort list"
  columnVisibility :: "string \<rightharpoonup> bool"
  rowSelection :: "string \<rightharpoonup> bool"
  aggregateModes :: "string \<rightharpoonup> AggregateMode"
  pendingAction :: "PendingAction option"
  dialogInput :: string
  dialogType :: ColumnType
  dialogOptions :: "string list"
  newOptionValue :: string

subsection \<open>computeAggregate\<close>


subsection \<open>The column dialog\<close>

definition columnKeys :: "'n state \<Rightarrow> string list" where
  "columnKeys s = map key (columnConfigs s)"

definition openDialog :: "PendingAction \<Rightarrow> ColumnType option \<Rightarrow> 'n state \<Rightarrow> 'n state" where
  "openDialog action overrideType s =
     (case action of
        Edit k \<Rightarrow>
          (let config = find (\<lambda>c. key c = k) (columnConfigs s)
           in s\<lparr>pendingAction := Some action,
                dialogInput := k,
                dialogType := (case config of None \<Rightarrow> T_text | Some c \<Rightarrow> type c),
                dialogOptions :=
                  (case config of None \<Rightarrow> []
                   | Some c \<Rightarrow> (case options c of None \<Rightarrow> [] | Some os \<Rightarrow> os)),
                newOptionValue := []\<rparr>)
      | Insert k side \<Rightarrow>
          (let t = (case overrideType of None \<Rightarrow> T_text | Some t' \<Rightarrow> t')
           in s\<lparr>pendingAction := Some action,
                dialogInput := COLUMN_TYPE_LABELS t,
                dialogType := t,
                dialogOptions := [],
                newOptionValue := []\<rparr>))"

definition closeDialog :: "'n state \<Rightarrow> 'n state" where
  "closeDialog s =
     s\<lparr>pendingAction := None, dialogInput := [], dialogType := T_text,
       dialogOptions := [], newOptionValue := []\<rparr>"

text \<open>
  \<^verbatim>\<open>handleDialogSubmit\<close>. The destructuring
  \<^verbatim>\<open>const { [oldKey]: value, ...rest } = row\<close> reads the old entry (\<^verbatim>\<open>undefined\<close> when
  missing) and drops it; \<^verbatim>\<open>{ ...rest, [name]: value }\<close> stores it under the new name.
\<close>

definition handleDialogSubmit :: "'n state \<Rightarrow> 'n state" where
  "handleDialogSubmit s =
     (let name = trim (dialogInput s) in
      case pendingAction s of
        None \<Rightarrow> s
      | Some action \<Rightarrow>
          if name = [] then s
          else (case action of
            Edit oldKey \<Rightarrow>
              (let nameChanged = (name \<noteq> oldKey) in
               if nameChanged \<and> name \<in> set (columnKeys s) then s
               else closeDialog
                 (s\<lparr>columnConfigs :=
                      map (\<lambda>c. if key c \<noteq> oldKey then c
                                else c\<lparr>key := (if nameChanged then name else key c),
                                       type := dialogType s,
                                       options := (if dialogType s = T_select
                                                   then Some (dialogOptions s) else None)\<rparr>)
                        (columnConfigs s),
                    rows :=
                      (if nameChanged
                       then map (\<lambda>row. (row(oldKey := None))
                                   (name \<mapsto> (case row oldKey of None \<Rightarrow> JUndefined
                                               | Some value \<Rightarrow> value)))
                              (rows s)
                       else rows s)\<rparr>))
          | Insert anchor side \<Rightarrow>
              if name \<in> set (columnKeys s) then s
              else
                (let idx = (if anchor \<noteq> [] then indexOf (columnKeys s) anchor else - 1);
                     insertIdx = (if idx = - 1 then int (length (columnKeys s))
                                  else (if side = Left then idx else idx + 1));
                     newConfig = \<lparr>key = name, type = dialogType s,
                                  options = (if dialogType s = T_select
                                             then Some (dialogOptions s) else None)\<rparr>
                 in closeDialog
                   (s\<lparr>columnConfigs :=
                        slice (columnConfigs s) 0 insertIdx @ [newConfig]
                          @ sliceFrom (columnConfigs s) insertIdx,
                      rows := map (\<lambda>row. row(name \<mapsto> getDefaultValue (dialogType s)))
                                (rows s)\<rparr>))))"

subsection \<open>Generated column names\<close>

text \<open>
  Both \<^verbatim>\<open>while (columnKeys.includes(name))\<close> loops try the next numbered candidate
  until the name is free. They end because the candidates are pairwise different and
  the keys are finitely many; the facts below are what the termination proofs need.
\<close>

lemma digit_char_inj:
  assumes "a < 10" and "b < 10" and "digit_char a = digit_char b"
  shows "a = b"
proof -
  have A: "a \<in> {0, 1, 2, 3, 4, 5, 6, 7, 8, 9}" using assms(1) by auto
  have B: "b \<in> {0, 1, 2, 3, 4, 5, 6, 7, 8, 9}" using assms(2) by auto
  show ?thesis using A B assms(3) unfolding digit_char_def by auto
qed

lemma show_nat_small: "n < 10 \<Longrightarrow> show_nat n = [digit_char n]"
  by (subst show_nat.simps) simp

lemma show_nat_large:
  "\<not> n < 10 \<Longrightarrow> show_nat n = show_nat (n div 10) @ [digit_char (n mod 10)]"
  by (subst show_nat.simps) simp

lemma show_nat_nonempty: "show_nat n \<noteq> []"
  by (subst show_nat.simps) simp

lemma show_nat_inj: "show_nat n = show_nat m \<Longrightarrow> n = m"
proof (induction n arbitrary: m rule: show_nat.induct)
  case (1 n)
  show ?case
  proof (cases "n < 10")
    case nS: True
    show ?thesis
    proof (cases "m < 10")
      case mS: True
      from "1.prems" have "digit_char n = digit_char m"
        by (simp add: show_nat_small nS mS)
      with nS mS show ?thesis by (rule digit_char_inj)
    next
      case mL: False
      from "1.prems" show_nat_nonempty [of "m div 10"] show ?thesis
        by (simp add: show_nat_small [OF nS] show_nat_large [OF mL])
    qed
  next
    case nL: False
    show ?thesis
    proof (cases "m < 10")
      case mS: True
      from "1.prems" show_nat_nonempty [of "n div 10"] show ?thesis
        by (simp add: show_nat_small [OF mS] show_nat_large [OF nL])
    next
      case mL: False
      from "1.prems" have e1: "show_nat (n div 10) = show_nat (m div 10)"
        and e2: "digit_char (n mod 10) = digit_char (m mod 10)"
        by (simp_all add: show_nat_large [OF nL] show_nat_large [OF mL])
      from "1.IH" [OF nL e1] have d: "n div 10 = m div 10" .
      have r: "n mod 10 = m mod 10" by (rule digit_char_inj [OF _ _ e2]) simp_all
      from d r show ?thesis by (metis div_mult_mod_eq)
    qed
  qed
qed

lemma candidates_card:
  assumes inj: "\<And>a b. gen a = gen b \<Longrightarrow> a = b" and fin: "finite S"
  shows "card {j. i \<le> j \<and> gen j \<in> S}
         = card {j. Suc i \<le> j \<and> gen j \<in> S} + (if gen i \<in> S then 1 else 0)"
proof -
  have "inj gen" using inj by (auto simp: inj_def)
  then have f: "finite {j. gen j \<in> S}"
    using fin by (simp add: finite_vimageI vimage_def [symmetric])
  have f1: "finite {j. Suc i \<le> j \<and> gen j \<in> S}"
    by (rule finite_subset [OF _ f]) auto
  show ?thesis
  proof (cases "gen i \<in> S")
    case True
    have "{j. i \<le> j \<and> gen j \<in> S} = insert i {j. Suc i \<le> j \<and> gen j \<in> S}"
      using True by (auto simp: le_Suc_eq)
    then show ?thesis using True f1 by simp
  next
    case False
    have "{j. i \<le> j \<and> gen j \<in> S} = {j. Suc i \<le> j \<and> gen j \<in> S}"
      using False by (auto simp: Suc_le_eq order_le_less)
    then show ?thesis using False by simp
  qed
qed

text \<open>
  The loop of \<^verbatim>\<open>handleQuickAdd\<close>:
  \<^verbatim>\<open>while (columnKeys.includes(name)) { name = `${LABEL} ${i}`; i++ }\<close>.
\<close>

function quickAddLoop :: "string list \<Rightarrow> string \<Rightarrow> string \<Rightarrow> nat \<Rightarrow> string" where
  "quickAddLoop keys label name i =
     (if name \<in> set keys
      then quickAddLoop keys label (label @ '' '' @ show_nat i) (i + 1)
      else name)"
  by pat_completeness auto
termination
proof (relation "measure (\<lambda>(keys, label, name, i).
    card {j. i \<le> j \<and> label @ '' '' @ show_nat j \<in> set keys}
      + (if name \<in> set keys then 1 else 0))", goal_cases)
  case 1
  show ?case by simp
next
  case (2 keys label name i)
  have "card {j. i \<le> j \<and> label @ '' '' @ show_nat j \<in> set keys}
      = card {j. Suc i \<le> j \<and> label @ '' '' @ show_nat j \<in> set keys}
        + (if label @ '' '' @ show_nat i \<in> set keys then 1 else 0)"
    by (rule candidates_card) (auto dest: show_nat_inj)
  with 2 show ?case by simp
qed

declare quickAddLoop.simps [simp del]

text \<open>
  The loop of \<^verbatim>\<open>onDuplicate\<close>:
  \<^verbatim>\<open>while (columnKeys.includes(copyName)) { copyName = `${key} (copy ${i})`; i++ }\<close>.
\<close>

function dupLoop :: "string list \<Rightarrow> string \<Rightarrow> string \<Rightarrow> nat \<Rightarrow> string" where
  "dupLoop keys k copyName i =
     (if copyName \<in> set keys
      then dupLoop keys k (k @ '' (copy '' @ show_nat i @ '')'') (i + 1)
      else copyName)"
  by pat_completeness auto
termination
proof (relation "measure (\<lambda>(keys, k, copyName, i).
    card {j. i \<le> j \<and> k @ '' (copy '' @ show_nat j @ '')'' \<in> set keys}
      + (if copyName \<in> set keys then 1 else 0))", goal_cases)
  case 1
  show ?case by simp
next
  case (2 keys k copyName i)
  have "card {j. i \<le> j \<and> k @ '' (copy '' @ show_nat j @ '')'' \<in> set keys}
      = card {j. Suc i \<le> j \<and> k @ '' (copy '' @ show_nat j @ '')'' \<in> set keys}
        + (if k @ '' (copy '' @ show_nat i @ '')'' \<in> set keys then 1 else 0)"
    by (rule candidates_card) (auto dest: show_nat_inj)
  with 2 show ?case by simp
qed

declare dupLoop.simps [simp del]

subsection \<open>Column and row handlers\<close>

text \<open>
  \<^verbatim>\<open>handleQuickAdd\<close>. For \<^verbatim>\<open>select\<close> it only opens the dialog, anchored to the right
  of the last column (\<^verbatim>\<open>columnKeys[columnKeys.length - 1]\<close> is \<^verbatim>\<open>undefined\<close> on
  an empty list, and an empty key is falsy as well).
\<close>

definition handleQuickAdd :: "ColumnType \<Rightarrow> 'n state \<Rightarrow> 'n state" where
  "handleQuickAdd t s =
     (if t = T_select then
        openDialog
          (if columnKeys s \<noteq> [] \<and> last (columnKeys s) \<noteq> []
           then Insert (last (columnKeys s)) Right
           else Insert [] Right)
          (Some T_select) s
      else
        (let name = quickAddLoop (columnKeys s) (COLUMN_TYPE_LABELS t) (COLUMN_TYPE_LABELS t) 2;
             newConfig = \<lparr>key = name, type = t, options = None\<rparr>
         in s\<lparr>columnConfigs := columnConfigs s @ [newConfig],
              rows := map (\<lambda>row. row(name \<mapsto> getDefaultValue t)) (rows s)\<rparr>))"

definition onDuplicate :: "string \<Rightarrow> 'n state \<Rightarrow> 'n state" where
  "onDuplicate k s =
     (case find (\<lambda>c. key c = k) (columnConfigs s) of
        None \<Rightarrow> s
      | Some config \<Rightarrow>
          (let copyName = dupLoop (columnKeys s) k (k @ '' (copy)'') 2;
               idx = indexOf (columnKeys s) k;
               newConfig = config\<lparr>key := copyName\<rparr>
           in s\<lparr>columnConfigs :=
                  slice (columnConfigs s) 0 (idx + 1) @ [newConfig]
                    @ sliceFrom (columnConfigs s) (idx + 1),
                rows := map (\<lambda>row. row(copyName \<mapsto>
                               nullish (row k) (getDefaultValue (type config))))
                          (rows s)\<rparr>))"

definition onSort :: "string \<Rightarrow> 'n state \<Rightarrow> 'n state" where
  "onSort k s =
     s\<lparr>sorting :=
         (case find (\<lambda>e. sort_id e = k) (sorting s) of
            None \<Rightarrow> [ColumnSort k False]
          | Some existing \<Rightarrow>
              if \<not> desc existing then [ColumnSort k True] else [])\<rparr>"

definition onHide :: "string \<Rightarrow> 'n state \<Rightarrow> 'n state" where
  "onHide k s = s\<lparr>columnVisibility := (columnVisibility s)(k \<mapsto> False)\<rparr>"

definition onDelete :: "string \<Rightarrow> 'n state \<Rightarrow> 'n state" where
  "onDelete k s = s\<lparr>columnConfigs := filter (\<lambda>c. key c \<noteq> k) (columnConfigs s)\<rparr>"

definition onCellChange :: "nat \<Rightarrow> string \<Rightarrow> 'n jsval \<Rightarrow> 'n state \<Rightarrow> 'n state" where
  "onCellChange rowIndex k v s =
     s\<lparr>rows := map (\<lambda>(i, row). if i = rowIndex then row(k \<mapsto> v) else row)
                 (enumerate 0 (rows s))\<rparr>"

text \<open>
  \<^verbatim>\<open>getRowId: (row) => String(row.id ?? "")\<close>, also the key of
  \<^verbatim>\<open>handleDeleteSelectedRows\<close>.
\<close>

definition getRowId :: "('n \<Rightarrow> string) \<Rightarrow> 'n Row \<Rightarrow> string" where
  "getRowId numStr row = String_of numStr (nullish (row ''id'') (JStr []))"

text \<open>
  The assignment \<^verbatim>\<open>obj[k] = v\<close> on an object created by an object literal. It
  creates or overwrites the own property \<open>k\<close>, except for the name \<^verbatim>\<open>__proto__\<close>:
  that is an accessor of \<^verbatim>\<open>Object.prototype\<close>, so unless the object has an own
  property of this name the assignment calls the inherited setter, which stores nothing
  in the object (for a value that is no object it does nothing at all). The object
  literals with a computed key, \<^verbatim>\<open>{ ...row, [k]: v }\<close>, of the other handlers define
  an own property for every name.
\<close>

definition assignProperty :: "'n Row \<Rightarrow> string \<Rightarrow> 'n jsval \<Rightarrow> 'n Row" where
  "assignProperty obj k v = (if k = ''__proto__'' \<and> obj k = None then obj else obj(k \<mapsto> v))"

text \<open>
  \<^verbatim>\<open>handleAddRow\<close>; the result of \<^verbatim>\<open>crypto.randomUUID()\<close> is the parameter \<open>uuid\<close>.
  The loop \<^verbatim>\<open>for (const config of columnConfigs) emptyRow[config.key] = ...\<close> is a
  fold of assignments.
\<close>

definition handleAddRow :: "string \<Rightarrow> 'n state \<Rightarrow> 'n state" where
  "handleAddRow uuid s =
     (let emptyRow = foldl (\<lambda>r config.
                         assignProperty r (key config) (getDefaultValue (type config)))
                       [''id'' \<mapsto> JStr uuid] (columnConfigs s)
      in s\<lparr>rows := rows s @ [emptyRow]\<rparr>)"

text \<open>
  \<^verbatim>\<open>handleDeleteSelectedRows\<close>; the identifiers of the selected rows, which the table
  library reports, are the parameter \<open>selectedIds\<close>.
\<close>

definition handleDeleteSelectedRows ::
  "('n \<Rightarrow> string) \<Rightarrow> string list \<Rightarrow> 'n state \<Rightarrow> 'n state" where
  "handleDeleteSelectedRows numStr selectedIds s =
     s\<lparr>rows := filter (\<lambda>row. getRowId numStr row \<notin> set selectedIds) (rows s),
       rowSelection := Map.empty\<rparr>"

section \<open>The operations of the table model\<close>

text \<open>
  The rename and insert operations of the specification are one pass through the
  dialog: it is opened from the column menu (\<^verbatim>\<open>onEdit\<close>, \<^verbatim>\<open>onInsertLeft\<close>,
  \<^verbatim>\<open>onInsertRight\<close>), the name, the type and the options are entered, and the form is
  submitted.
\<close>

definition renameColumn ::
  "string \<Rightarrow> string \<Rightarrow> ColumnType \<Rightarrow> string list \<Rightarrow> 'n state \<Rightarrow> 'n state" where
  "renameColumn oldKey newKeyCandidate newType newOptions s =
     handleDialogSubmit
       ((openDialog (Edit oldKey) None s)
          \<lparr>dialogInput := newKeyCandidate, dialogType := newType,
           dialogOptions := newOptions\<rparr>)"

definition insertColumn ::
  "string \<Rightarrow> Side \<Rightarrow> string \<Rightarrow> ColumnType \<Rightarrow> string list \<Rightarrow> 'n state \<Rightarrow> 'n state" where
  "insertColumn anchorKey side nameCandidate t opts s =
     handleDialogSubmit
       ((openDialog (Insert anchorKey side) None s)
          \<lparr>dialogInput := nameCandidate, dialogType := t, dialogOptions := opts\<rparr>)"

datatype 'n mutation =
    RenameColumn string string ColumnType "string list"
  | InsertColumn string Side string ColumnType "string list"
  | DuplicateColumn string
  | QuickAddColumn ColumnType
  | DeleteColumn string
  | HideColumn string
  | AddRow string
  | DeleteRows "string list"
  | SetCellValue nat string "'n jsval"

fun applyMutation :: "('n \<Rightarrow> string) \<Rightarrow> 'n state \<Rightarrow> 'n mutation \<Rightarrow> 'n state" where
  "applyMutation numStr s (RenameColumn oldKey cand t opts) = renameColumn oldKey cand t opts s"
| "applyMutation numStr s (InsertColumn anchor side cand t opts) =
     insertColumn anchor side cand t opts s"
| "applyMutation numStr s (DuplicateColumn k) = onDuplicate k s"
| "applyMutation numStr s (QuickAddColumn t) = handleQuickAdd t s"
| "applyMutation numStr s (DeleteColumn k) = onDelete k s"
| "applyMutation numStr s (HideColumn k) = onHide k s"
| "applyMutation numStr s (AddRow uuid) = handleAddRow uuid s"
| "applyMutation numStr s (DeleteRows ids) = handleDeleteSelectedRows numStr ids s"
| "applyMutation numStr s (SetCellValue rowIndex k v) = onCellChange rowIndex k v s"

text \<open>Invariant I1: the column keys are pairwise distinct.\<close>

definition keysDistinct :: "'n state \<Rightarrow> bool" where
  "keysDistinct s = distinct (columnKeys s)"

text \<open>Invariant I2: every row has an entry for every column key.\<close>

definition rowsComplete :: "'n state \<Rightarrow> bool" where
  "rowsComplete s = (\<forall>row \<in> set (rows s). \<forall>k \<in> set (columnKeys s). row k \<noteq> None)"

text \<open>
  No column is keyed \<^verbatim>\<open>__proto__\<close>, and a mutation that does not give this name to a
  column.
\<close>

definition protoFree :: "'n state \<Rightarrow> bool" where
  "protoFree s = (''__proto__'' \<notin> set (columnKeys s))"

fun namesProtoFree :: "'n mutation \<Rightarrow> bool" where
  "namesProtoFree (RenameColumn oldKey cand t opts) = (trim cand \<noteq> ''__proto__'')"
| "namesProtoFree (InsertColumn anchor side cand t opts) = (trim cand \<noteq> ''__proto__'')"
| "namesProtoFree _ = True"

subsection \<open>Test data\<close>

text \<open>
  The seed of the demo page: \<^verbatim>\<open>initialColumns\<close> and the one row of \<^verbatim>\<open>getData\<close>,
  in the initial state of the component. Numbers are naturals in the test data.
\<close>

definition initialColumns :: "ColumnConfig list" where
  "initialColumns =
     [\<lparr>key = ''status'', type = T_text, options = None\<rparr>,
      \<lparr>key = ''email'', type = T_email, options = None\<rparr>,
      \<lparr>key = ''amount'', type = T_currency, options = None\<rparr>]"

definition initialState :: "ColumnConfig list \<Rightarrow> 'n Row list \<Rightarrow> 'n state" where
  "initialState cols data =
     \<lparr>columnConfigs = cols, rows = data, sorting = [], columnVisibility = Map.empty,
      rowSelection = Map.empty, aggregateModes = Map.empty, pendingAction = None,
      dialogInput = [], dialogType = T_text, dialogOptions = [], newOptionValue = []\<rparr>"

definition demoRow :: "nat Row" where
  "demoRow = [''id'' \<mapsto> JStr ''728ed52f'', ''amount'' \<mapsto> JNum 100,
              ''status'' \<mapsto> JStr ''pending'', ''email'' \<mapsto> JStr ''m@example.com'']"

definition demoState :: "nat state" where
  "demoState = initialState initialColumns [demoRow]"

definition testHost :: "(nat, nat) host" where
  "testHost =
     \<lparr>numToString = show_nat, toNumber = (\<lambda>_. 0), isNaN = (\<lambda>_. False),
      currencyLocaleString = show_nat, numberLocaleString = show_nat,
      newDate = (\<lambda>_. 0), invalidDate = (\<lambda>_. True), localeDateString = show_nat\<rparr>"

text \<open>
  A table that already has a copy of \<open>amount\<close> and a null amount, a table whose only
  column is named \<open>Text 2\<close>, a sequence with every kind of mutation, and a sequence
  that inserts a column named \<^verbatim>\<open>__proto__\<close> and then adds a row.
\<close>

definition copiedState :: "nat state" where
  "copiedState =
     initialState
       [\<lparr>key = ''amount'', type = T_currency, options = None\<rparr>,
        \<lparr>key = ''amount (copy)'', type = T_currency, options = None\<rparr>]
       [[''id'' \<mapsto> JStr ''r1'', ''amount'' \<mapsto> JNull, ''amount (copy)'' \<mapsto> JNum 5]]"

definition numberedState :: "nat state" where
  "numberedState =
     initialState [\<lparr>key = ''Text 2'', type = T_text, options = None\<rparr>]
       [[''id'' \<mapsto> JStr ''r1'', ''Text 2'' \<mapsto> JStr ''x'']]"

definition demoMutations :: "nat mutation list" where
  "demoMutations =
     [RenameColumn ''status'' '' state '' T_select [''open'', ''done''],
      InsertColumn ''email'' Right ''Phone'' T_phone [],
      DuplicateColumn ''amount'',
      DuplicateColumn ''amount'',
      QuickAddColumn T_text,
      QuickAddColumn T_select,
      QuickAddColumn T_text,
      DeleteColumn ''email'',
      HideColumn ''amount'',
      AddRow ''u-1'',
      SetCellValue 1 ''Phone'' (JStr ''5551234567''),
      DeleteRows [''728ed52f'']]"

definition protoMutations :: "nat mutation list" where
  "protoMutations = [InsertColumn ''email'' Right ''__proto__'' T_text [], AddRow ''u-1'']"

section \<open>Properties\<close>

subsection \<open>Slices and indices\<close>

lemma slice_take_drop:
  "0 \<le> b \<Longrightarrow> b \<le> e \<Longrightarrow> slice xs b e = take (nat e - nat b) (drop (nat b) xs)"
  by (auto simp: slice_def clampIdx_def Let_def min_def)

lemma sliceFrom_drop: "0 \<le> b \<Longrightarrow> sliceFrom xs b = drop (nat b) xs"
  by (auto simp: sliceFrom_def clampIdx_def min_def)

lemma slice_prefix: "slice xs 0 (int n) = take n xs"
  by (simp add: slice_take_drop)

lemma sliceFrom_nat: "sliceFrom xs (int n) = drop n xs"
  by (simp add: sliceFrom_drop)

lemma indexOf_absent: "x \<notin> set xs \<Longrightarrow> indexOf xs x = - 1"
  by (induction xs) (auto simp: Let_def)

lemma indexOf_present: "x \<in> set xs \<Longrightarrow> 0 \<le> indexOf xs x"
  by (induction xs) (auto simp: Let_def)

lemma indexOf_first:
  "i < length xs \<Longrightarrow> xs ! i = x \<Longrightarrow> x \<notin> set (take i xs) \<Longrightarrow> indexOf xs x = int i"
proof (induction xs arbitrary: i)
  case Nil
  then show ?case by simp
next
  case (Cons y ys)
  show ?case
  proof (cases i)
    case 0
    with Cons.prems show ?thesis by simp
  next
    case (Suc j)
    with Cons.prems have "j < length ys" "ys ! j = x" "x \<notin> set (take j ys)" "y \<noteq> x"
      by auto
    with Cons.IH [of j] Suc show ?thesis by (simp add: Let_def)
  qed
qed

subsection \<open>Phone formatting\<close>

text \<open>
  Claim C9. For a value that is not null, undefined or the empty string, formatted as
  \<open>T_phone\<close>: when the digits left after deleting every non-digit character are
  exactly ten, \<open>AAA\<close>, \<open>BBB\<close>, \<open>CCCC\<close>, the result is \<open>(AAA) BBB-CCCC\<close>; when they
  are eleven and begin with \<open>1\<close>, the result is \<open>+1 (AAA) BBB-CCCC\<close>; when their
  number is neither ten nor eleven, the result is the string form of the raw value.
\<close>

theorem formatCellValue_phone:
  fixes h :: "('n, 'd) host" and v :: "'n jsval"
  assumes "v \<noteq> JUndefined" and "v \<noteq> JNull" and "v \<noteq> JStr []"
  defines "raw \<equiv> String_of (numToString h) v"
  defines "digits \<equiv> filter is_digit raw"
  shows "(digits = a @ b @ c \<and> length a = 3 \<and> length b = 3 \<and> length c = 4 \<longrightarrow>
            formatCellValue h v T_phone = ''('' @ a @ '') '' @ b @ ''-'' @ c)
       \<and> (digits = ''1'' @ a @ b @ c \<and> length a = 3 \<and> length b = 3 \<and> length c = 4 \<longrightarrow>
            formatCellValue h v T_phone = ''+1 ('' @ a @ '') '' @ b @ ''-'' @ c)
       \<and> (length digits \<noteq> 10 \<and> length digits \<noteq> 11 \<longrightarrow>
            formatCellValue h v T_phone = raw)"
  using assms
  by (auto simp: formatCellValue_def Let_def slice_take_drop sliceFrom_drop)

theorem formatCellValue_phone_witness:
  "formatCellValue testHost (JStr ''5551234567'') T_phone = ''(555) 123-4567''
   \<and> formatCellValue testHost (JStr ''15551234567'') T_phone = ''+1 (555) 123-4567''
   \<and> formatCellValue testHost (JStr ''123'') T_phone = ''123''"
  using formatCellValue_phone [of "JStr ''5551234567''" testHost "''555''" "''123''" "''4567''"]
    formatCellValue_phone [of "JStr ''15551234567''" testHost "''555''" "''123''" "''4567''"]
    formatCellValue_phone [of "JStr ''123''" testHost]
  by (simp add: is_digit_def)

subsection \<open>Sorting toggle\<close>

text \<open>
  Claim C7. \<open>onSort k\<close> (the specification's \<open>toggleSort\<close>) sets \<open>{k, ascending}\<close>
  when no descriptor is on \<open>k\<close> (none at all, or one on another column), turns
  \<open>{k, ascending}\<close> into \<open>{k, descending}\<close>, and clears \<open>{k, descending}\<close>. From the
  unsorted state three toggles of the same key give ascending, descending, unsorted.
  Whatever the starting state, at most one descriptor is left after a toggle.
\<close>

theorem onSort_cycle:
  "(k \<notin> sort_id ` set (sorting s) \<longrightarrow> sorting (onSort k s) = [ColumnSort k False])
   \<and> (sorting s = [ColumnSort k False] \<longrightarrow> sorting (onSort k s) = [ColumnSort k True])
   \<and> (sorting s = [ColumnSort k True] \<longrightarrow> sorting (onSort k s) = [])
   \<and> (sorting s = [] \<longrightarrow>
        sorting (onSort k s) = [ColumnSort k False]
        \<and> sorting (onSort k (onSort k s)) = [ColumnSort k True]
        \<and> sorting (onSort k (onSort k (onSort k s))) = [])
   \<and> length (sorting (onSort k s)) \<le> 1"
proof -
  have none: "k \<notin> sort_id ` set (sorting s) \<Longrightarrow> find (\<lambda>e. sort_id e = k) (sorting s) = None"
    by (auto simp: find_None_iff)
  show ?thesis
    by (auto simp: onSort_def none split: option.splits)
qed

theorem onSort_cycle_witness:
  "sorting (onSort ''amount'' demoState) = [ColumnSort ''amount'' False]
   \<and> sorting (onSort ''amount'' (onSort ''amount'' demoState)) = [ColumnSort ''amount'' True]
   \<and> sorting (onSort ''amount'' (onSort ''amount'' (onSort ''amount'' demoState))) = []
   \<and> sorting (onSort ''email'' (onSort ''amount'' demoState)) = [ColumnSort ''email'' False]"
  using onSort_cycle [of "''amount''" demoState]
    onSort_cycle [of "''email''" "onSort ''amount'' demoState"]
  by (simp add: demoState_def initialState_def)

subsection \<open>Aggregation\<close>




subsection \<open>Deleting rows\<close>

text \<open>
  Claim C10. Deleting rows keeps exactly the rows whose identifier is not among the
  deleted ones, where the identifier of a row is the string form of its \<open>id\<close> entry and
  the empty string when the entry is missing, undefined or null. Hence two rows with
  the same identifier, for instance two rows without an \<open>id\<close>, are both kept or both
  removed.
\<close>

theorem handleDeleteSelectedRows_by_id:
  "rows (handleDeleteSelectedRows numStr ids s)
     = filter (\<lambda>r. getRowId numStr r \<notin> set ids) (rows s)
   \<and> (\<forall>r \<in> set (rows s).
         r \<in> set (rows (handleDeleteSelectedRows numStr ids s))
           \<longleftrightarrow> getRowId numStr r \<notin> set ids)
   \<and> (\<forall>r1 \<in> set (rows s). \<forall>r2 \<in> set (rows s).
         getRowId numStr r1 = getRowId numStr r2 \<longrightarrow>
           (r1 \<in> set (rows (handleDeleteSelectedRows numStr ids s))
             \<longleftrightarrow> r2 \<in> set (rows (handleDeleteSelectedRows numStr ids s))))
   \<and> getRowId numStr r =
       (case r ''id'' of None \<Rightarrow> [] | Some JUndefined \<Rightarrow> [] | Some JNull \<Rightarrow> []
        | Some v \<Rightarrow> String_of numStr v)"
  by (auto simp: handleDeleteSelectedRows_def getRowId_def split: option.splits jsval.splits)

theorem handleDeleteSelectedRows_by_id_witness:
  "rows (handleDeleteSelectedRows show_nat [''r1'']
      (initialState [] [[''id'' \<mapsto> JStr ''r1''], [''id'' \<mapsto> JStr ''r2'']]))
     = [[''id'' \<mapsto> JStr ''r2'']]
   \<and> rows (handleDeleteSelectedRows show_nat [[]]
      (initialState [] [[''a'' \<mapsto> JBool True], [''id'' \<mapsto> JNum 7], [''id'' \<mapsto> JNull]]))
     = [[''id'' \<mapsto> JNum 7]]"
  using handleDeleteSelectedRows_by_id [of show_nat "[''r1'']"
       "initialState [] [[''id'' \<mapsto> JStr ''r1''], [''id'' \<mapsto> JStr ''r2'']]"]
    handleDeleteSelectedRows_by_id [of show_nat "[[]]"
       "initialState [] [[''a'' \<mapsto> JBool True], [''id'' \<mapsto> JNum 7], [''id'' \<mapsto> JNull]]"]
  by (simp add: initialState_def getRowId_def show_nat_nonempty)

subsection \<open>Rejected dialog submissions\<close>

text \<open>
  Claim C2. A rename whose trimmed name is empty, a rename whose trimmed name differs
  from the old key and is the key of an existing column, and an insertion whose trimmed
  name is the key of an existing column each leave the column list and the rows as
  they were.
\<close>

theorem rejected_submit_unchanged:
  "(trim cand = [] \<longrightarrow>
      columnConfigs (renameColumn oldKey cand t opts s) = columnConfigs s
      \<and> rows (renameColumn oldKey cand t opts s) = rows s)
   \<and> (trim cand \<noteq> oldKey \<and> trim cand \<in> set (columnKeys s) \<longrightarrow>
      columnConfigs (renameColumn oldKey cand t opts s) = columnConfigs s
      \<and> rows (renameColumn oldKey cand t opts s) = rows s)
   \<and> (trim cand \<in> set (columnKeys s) \<longrightarrow>
      columnConfigs (insertColumn anchor side cand t opts s) = columnConfigs s
      \<and> rows (insertColumn anchor side cand t opts s) = rows s)"
  by (simp add: renameColumn_def insertColumn_def handleDialogSubmit_def openDialog_def
      columnKeys_def Let_def)

theorem rejected_submit_unchanged_witness:
  "columnConfigs (renameColumn ''status'' ''   '' T_number [] demoState) = initialColumns
   \<and> rows (renameColumn ''status'' ''   '' T_number [] demoState) = [demoRow]
   \<and> columnConfigs (renameColumn ''status'' '' email '' T_number [] demoState) = initialColumns
   \<and> rows (renameColumn ''status'' '' email '' T_number [] demoState) = [demoRow]
   \<and> columnConfigs (insertColumn ''email'' Right ''amount'' T_phone [] demoState) = initialColumns
   \<and> rows (insertColumn ''email'' Right ''amount'' T_phone [] demoState) = [demoRow]"
  using rejected_submit_unchanged [of "''   ''" "''status''" T_number "[]" demoState]
    rejected_submit_unchanged [of "'' email ''" "''status''" T_number "[]" demoState]
    rejected_submit_unchanged [of "''amount''" "''status''" T_phone "[]" demoState "''email''" Right]
  by (simp add: trim_def is_space_def demoState_def initialState_def initialColumns_def
      columnKeys_def)

subsection \<open>Renaming a column\<close>

lemma renameColumn_columns:
  assumes "trim cand \<noteq> []" and "trim cand = oldKey \<or> trim cand \<notin> set (columnKeys s)"
  shows "columnConfigs (renameColumn oldKey cand t opts s)
         = map (\<lambda>c. if key c \<noteq> oldKey then c
                     else c\<lparr>key := trim cand, type := t,
                            options := (if t = T_select then Some opts else None)\<rparr>)
             (columnConfigs s)"
  using assms
  by (auto simp: renameColumn_def handleDialogSubmit_def openDialog_def closeDialog_def
      columnKeys_def Let_def)

lemma renameColumn_rows:
  assumes "trim cand \<noteq> []" and "trim cand = oldKey \<or> trim cand \<notin> set (columnKeys s)"
  shows "rows (renameColumn oldKey cand t opts s)
         = (if trim cand \<noteq> oldKey
            then map (\<lambda>row. (row(oldKey := None))
                     (trim cand \<mapsto> (case row oldKey of None \<Rightarrow> JUndefined | Some v \<Rightarrow> v)))
                   (rows s)
            else rows s)"
  using assms
  by (auto simp: renameColumn_def handleDialogSubmit_def openDialog_def closeDialog_def
      columnKeys_def Let_def)

text \<open>
  Claim C5. A rename whose trimmed name is not empty and is either the old key or no
  existing key rewrites the columns keyed \<open>oldKey\<close> where they stand (new key, the
  chosen type, the options of a select type) and leaves every other column as it was.
  When the key is unchanged the rows are unchanged; when it changed, each row loses
  its \<open>oldKey\<close> entry, has an entry under the new key, which is the very value it had
  under \<open>oldKey\<close> (whatever the new type is), and keeps all its other entries.
\<close>

theorem renameColumn_success:
  assumes "name = trim cand" and "name \<noteq> []"
    and "name = oldKey \<or> name \<notin> set (columnKeys s)"
  shows "length (columnConfigs (renameColumn oldKey cand t opts s)) = length (columnConfigs s)
   \<and> (\<forall>i < length (columnConfigs s).
        columnConfigs (renameColumn oldKey cand t opts s) ! i =
          (if key (columnConfigs s ! i) = oldKey
           then \<lparr>key = name, type = t, options = (if t = T_select then Some opts else None)\<rparr>
           else columnConfigs s ! i))
   \<and> (name = oldKey \<longrightarrow> rows (renameColumn oldKey cand t opts s) = rows s)
   \<and> (name \<noteq> oldKey \<longrightarrow>
        length (rows (renameColumn oldKey cand t opts s)) = length (rows s)
        \<and> (\<forall>j < length (rows s).
              (rows (renameColumn oldKey cand t opts s) ! j) oldKey = None
              \<and> (rows (renameColumn oldKey cand t opts s) ! j) name \<noteq> None
              \<and> (\<forall>v. (rows s ! j) oldKey = Some v \<longrightarrow>
                    (rows (renameColumn oldKey cand t opts s) ! j) name = Some v)
              \<and> (\<forall>k. k \<noteq> oldKey \<and> k \<noteq> name \<longrightarrow>
                    (rows (renameColumn oldKey cand t opts s) ! j) k = (rows s ! j) k)))"
proof -
  have c: "trim cand \<noteq> []" "trim cand = oldKey \<or> trim cand \<notin> set (columnKeys s)"
    using assms by auto
  show ?thesis
    unfolding renameColumn_columns [OF c] renameColumn_rows [OF c] assms(1)
    by auto
qed

theorem renameColumn_success_witness:
  "columnConfigs (renameColumn ''status'' '' state '' T_text [] demoState) ! 0
     = \<lparr>key = ''state'', type = T_text, options = None\<rparr>
   \<and> columnConfigs (renameColumn ''status'' '' state '' T_text [] demoState) ! 1
     = \<lparr>key = ''email'', type = T_email, options = None\<rparr>
   \<and> (rows (renameColumn ''status'' '' state '' T_text [] demoState) ! 0) ''state''
       = Some (JStr ''pending'')
   \<and> (rows (renameColumn ''status'' '' state '' T_text [] demoState) ! 0) ''status'' = None
   \<and> (rows (renameColumn ''status'' '' state '' T_text [] demoState) ! 0) ''amount''
       = Some (JNum 100)
   \<and> columnConfigs (renameColumn ''amount'' ''amount'' T_select [''a'', ''b''] demoState) ! 2
       = \<lparr>key = ''amount'', type = T_select, options = Some [''a'', ''b'']\<rparr>
   \<and> rows (renameColumn ''amount'' ''amount'' T_select [''a'', ''b''] demoState) = [demoRow]"
proof -
  have t1: "''state'' = trim '' state ''" and t2: "''amount'' = trim ''amount''"
    by (simp_all add: trim_def is_space_def)
  have k: "columnKeys demoState = [''status'', ''email'', ''amount'']"
    by (simp add: columnKeys_def demoState_def initialState_def initialColumns_def)
  have cs: "columnConfigs demoState = initialColumns" and rs: "rows demoState = [demoRow]"
    by (simp_all add: demoState_def initialState_def)
  have A: "''state'' = ''status'' \<or> ''state'' \<notin> set (columnKeys demoState)"
    and B: "''amount'' = ''amount'' \<or> ''amount'' \<notin> set (columnKeys demoState)"
    by (simp_all add: k)
  have ne: "''state'' \<noteq> []" "''amount'' \<noteq> []" by simp_all
  note R = renameColumn_success [OF t1 ne(1) A, of T_text "[]", THEN conjunct2]
  note S = renameColumn_success [OF t2 ne(2) B, of T_select "[''a'', ''b'']", THEN conjunct2]
  note R2 = R [THEN conjunct2, THEN conjunct2, rule_format, THEN conjunct2, rule_format, of 0]
  show ?thesis
    using R [THEN conjunct1, rule_format, of 0] R [THEN conjunct1, rule_format, of 1]
      R2 [THEN conjunct1]
      R2 [THEN conjunct2, THEN conjunct2, THEN conjunct1, rule_format, of "JStr ''pending''"]
      R2 [THEN conjunct2, THEN conjunct2, THEN conjunct2, rule_format, of "''amount''"]
      S [THEN conjunct1, rule_format, of 2] S [THEN conjunct2, THEN conjunct1]
    by (simp add: cs rs demoRow_def initialColumns_def)
qed

subsection \<open>Inserting a column\<close>

lemma insertColumn_unfold:
  assumes "trim cand \<noteq> []" and "trim cand \<notin> set (columnKeys s)"
  shows "columnConfigs (insertColumn anchor side cand t opts s)
         = (let idx = (if anchor \<noteq> [] then indexOf (columnKeys s) anchor else - 1);
                insertIdx = (if idx = - 1 then int (length (columnKeys s))
                             else (if side = Left then idx else idx + 1))
            in slice (columnConfigs s) 0 insertIdx
               @ [\<lparr>key = trim cand, type = t,
                    options = (if t = T_select then Some opts else None)\<rparr>]
               @ sliceFrom (columnConfigs s) insertIdx)"
    and "rows (insertColumn anchor side cand t opts s)
         = map (\<lambda>row. row(trim cand \<mapsto> getDefaultValue t)) (rows s)"
  using assms
  by (auto simp: insertColumn_def handleDialogSubmit_def openDialog_def closeDialog_def
      columnKeys_def Let_def)

text \<open>
  Claim C6. An insertion whose trimmed name is not empty and is no existing key puts
  the new column at the index of the anchor for the left side and just after it for the
  right side (the anchor's index being that of its first occurrence), and at the end
  when the anchor is empty or is no column key. Every row gets the default value of
  the type under the new key and keeps its other entries.
\<close>

theorem insertColumn_success:
  fixes t :: ColumnType and opts :: "string list" and name :: string
  assumes "name = trim cand" and "name \<noteq> []" and "name \<notin> set (columnKeys s)"
  defines "newC \<equiv> \<lparr>key = name, type = t, options = (if t = T_select then Some opts else None)\<rparr>"
  shows "(anchor \<noteq> [] \<and> i < length (columnConfigs s) \<and> key (columnConfigs s ! i) = anchor
          \<and> anchor \<notin> set (take i (columnKeys s)) \<longrightarrow>
            columnConfigs (insertColumn anchor Left cand t opts s)
              = take i (columnConfigs s) @ [newC] @ drop i (columnConfigs s)
          \<and> columnConfigs (insertColumn anchor Right cand t opts s)
              = take (i + 1) (columnConfigs s) @ [newC] @ drop (i + 1) (columnConfigs s))
   \<and> (anchor = [] \<or> anchor \<notin> set (columnKeys s) \<longrightarrow>
          columnConfigs (insertColumn anchor side cand t opts s) = columnConfigs s @ [newC])
   \<and> length (rows (insertColumn anchor side cand t opts s)) = length (rows s)
   \<and> (\<forall>j < length (rows s).
          (rows (insertColumn anchor side cand t opts s) ! j) name = Some (getDefaultValue t)
          \<and> (\<forall>k. k \<noteq> name \<longrightarrow>
                (rows (insertColumn anchor side cand t opts s) ! j) k = (rows s ! j) k))"
proof -
  have c: "trim cand \<noteq> []" "trim cand \<notin> set (columnKeys s)"
    using assms by auto
  have len: "length (columnKeys s) = length (columnConfigs s)"
    by (simp add: columnKeys_def)
  have found: "indexOf (columnKeys s) anchor = int i"
    if "i < length (columnConfigs s)" "key (columnConfigs s ! i) = anchor"
       "anchor \<notin> set (take i (columnKeys s))"
    using that by (intro indexOf_first) (simp_all add: columnKeys_def)
  have absent: "indexOf (columnKeys s) anchor = - 1" if "anchor \<notin> set (columnKeys s)"
    using that by (rule indexOf_absent)
  have A: "anchor \<noteq> [] \<and> i < length (columnConfigs s) \<and> key (columnConfigs s ! i) = anchor
          \<and> anchor \<notin> set (take i (columnKeys s)) \<longrightarrow>
            columnConfigs (insertColumn anchor Left cand t opts s)
              = take i (columnConfigs s) @ [newC] @ drop i (columnConfigs s)
          \<and> columnConfigs (insertColumn anchor Right cand t opts s)
              = take (i + 1) (columnConfigs s) @ [newC] @ drop (i + 1) (columnConfigs s)"
    using found slice_prefix [of "columnConfigs s" "i"] slice_prefix [of "columnConfigs s" "i + 1"]
      sliceFrom_nat [of "columnConfigs s" "i"] sliceFrom_nat [of "columnConfigs s" "i + 1"]
    by (auto simp: insertColumn_unfold(1) [OF c] Let_def newC_def assms(1) add.commute)
  have B: "anchor = [] \<or> anchor \<notin> set (columnKeys s) \<longrightarrow>
          columnConfigs (insertColumn anchor side cand t opts s) = columnConfigs s @ [newC]"
    using absent slice_prefix [of "columnConfigs s" "length (columnConfigs s)"]
      sliceFrom_nat [of "columnConfigs s" "length (columnConfigs s)"]
    by (auto simp: insertColumn_unfold(1) [OF c] Let_def newC_def assms(1) len)
  have C: "length (rows (insertColumn anchor side cand t opts s)) = length (rows s)
   \<and> (\<forall>j < length (rows s).
          (rows (insertColumn anchor side cand t opts s) ! j) name = Some (getDefaultValue t)
          \<and> (\<forall>k. k \<noteq> name \<longrightarrow>
                (rows (insertColumn anchor side cand t opts s) ! j) k = (rows s ! j) k))"
    by (simp add: insertColumn_unfold(2) [OF c] assms(1))
  from A B C show ?thesis by blast
qed

theorem insertColumn_success_witness:
  "map key (columnConfigs (insertColumn ''email'' Right ''Phone'' T_phone [] demoState))
     = [''status'', ''email'', ''Phone'', ''amount'']
   \<and> map key (columnConfigs (insertColumn ''email'' Left ''Phone'' T_phone [] demoState))
     = [''status'', ''Phone'', ''email'', ''amount'']
   \<and> map key (columnConfigs (insertColumn [] Left ''Phone'' T_phone [] demoState))
     = [''status'', ''email'', ''amount'', ''Phone'']
   \<and> (rows (insertColumn ''email'' Right ''Phone'' T_phone [] demoState) ! 0) ''Phone''
     = Some (JStr [])
   \<and> (rows (insertColumn ''email'' Right ''Phone'' T_phone [] demoState) ! 0) ''email''
     = Some (JStr ''m@example.com'')"
proof -
  have t: "''Phone'' = trim ''Phone''"
    by (simp add: trim_def is_space_def)
  have ne: "''Phone'' \<noteq> []" by simp
  have k: "columnKeys demoState = [''status'', ''email'', ''amount'']"
    by (simp add: columnKeys_def demoState_def initialState_def initialColumns_def)
  have cs: "columnConfigs demoState = initialColumns" and rs: "rows demoState = [demoRow]"
    by (simp_all add: demoState_def initialState_def)
  have fresh: "''Phone'' \<notin> set (columnKeys demoState)"
    by (simp add: k)
  note I = insertColumn_success [OF t ne fresh, of _ _ T_phone "[]"]
  note I1 = I [of "''email''" 1, THEN conjunct1, rule_format]
  note I2 = I [of "[]" 0 Left, THEN conjunct2, THEN conjunct1, rule_format]
  note I3 = I [of "''email''" 0 Right, THEN conjunct2, THEN conjunct2, THEN conjunct2,
      rule_format, of 0]
  show ?thesis
    using I1 I2 I3 [THEN conjunct1] I3 [THEN conjunct2, rule_format, of "''email''"]
    by (simp add: k cs rs initialColumns_def demoRow_def)
qed

subsection \<open>Lists, name loops and the demo table\<close>

lemma slice_from_start: "slice xs 0 e = take (clampIdx e (length xs)) xs"
  by (simp add: slice_def clampIdx_def)

lemma set_insert_at: "set (take n xs @ [x] @ drop n xs) = insert x (set xs)"
proof -
  have "set (take n xs @ [x] @ drop n xs) = insert x (set (take n xs @ drop n xs))"
    by (simp del: append_take_drop_id)
  then show ?thesis by simp
qed

lemma distinct_insert_at:
  assumes "distinct xs" and "x \<notin> set xs"
  shows "distinct (take n xs @ [x] @ drop n xs)"
proof -
  have "distinct (take n xs @ drop n xs)" using assms(1) by simp
  moreover have "x \<notin> set (take n xs)" "x \<notin> set (drop n xs)"
    using assms(2) by (auto dest: in_set_takeD in_set_dropD)
  ultimately show ?thesis by (simp del: append_take_drop_id) 
qed

lemma distinct_rename:
  assumes "distinct xs" and "y \<notin> set xs"
  shows "distinct (map (\<lambda>k. if k = x then y else k) xs)"
  using assms by (induction xs) auto

lemma find_first:
  "i < length cs \<Longrightarrow> key (cs ! i) = k \<Longrightarrow> k \<notin> set (take i (map key cs))
     \<Longrightarrow> find (\<lambda>c. key c = k) cs = Some (cs ! i)"
proof (induction cs arbitrary: i)
  case Nil
  then show ?case by simp
next
  case (Cons c cs)
  show ?case
  proof (cases i)
    case 0
    with Cons.prems show ?thesis by simp
  next
    case (Suc j)
    with Cons.prems have "j < length cs" "key (cs ! j) = k" "k \<notin> set (take j (map key cs))"
      "key c \<noteq> k" by auto
    with Cons.IH [of j] Suc show ?thesis by simp
  qed
qed

lemma show_nat_2: "show_nat 2 = ''2''" and show_nat_3: "show_nat 3 = ''3''"
  by (simp_all add: show_nat_small digit_char_def)

lemma dupLoop_fresh: "dupLoop keys k copyName i \<notin> set keys"
  by (induction keys k copyName i rule: dupLoop.induct) (subst dupLoop.simps, simp)

lemma dupLoop_free: "copyName \<notin> set keys \<Longrightarrow> dupLoop keys k copyName i = copyName"
  by (subst dupLoop.simps) simp

lemma dupLoop_taken:
  "copyName \<in> set keys \<Longrightarrow>
     dupLoop keys k copyName i = dupLoop keys k (k @ '' (copy '' @ show_nat i @ '')'') (i + 1)"
  by (subst dupLoop.simps) simp

lemma quickAddLoop_fresh: "quickAddLoop keys label name i \<notin> set keys"
  by (induction keys label name i rule: quickAddLoop.induct) (subst quickAddLoop.simps, simp)

lemma quickAddLoop_free: "name \<notin> set keys \<Longrightarrow> quickAddLoop keys label name i = name"
  by (subst quickAddLoop.simps) simp

lemma quickAddLoop_taken:
  "name \<in> set keys \<Longrightarrow>
     quickAddLoop keys label name i = quickAddLoop keys label (label @ '' '' @ show_nat i) (i + 1)"
  by (subst quickAddLoop.simps) simp

lemma quickAddLoop_search:
  "name \<in> set keys \<Longrightarrow>
     \<exists>n\<ge>i. quickAddLoop keys label name i = label @ '' '' @ show_nat n
            \<and> (\<forall>j. i \<le> j \<and> j < n \<longrightarrow> label @ '' '' @ show_nat j \<in> set keys)"
proof (induction keys label name i rule: quickAddLoop.induct)
  case (1 keys label name i)
  have step: "quickAddLoop keys label name i
      = quickAddLoop keys label (label @ '' '' @ show_nat i) (i + 1)"
    using "1.prems" by (rule quickAddLoop_taken)
  show ?case
  proof (cases "label @ '' '' @ show_nat i \<in> set keys")
    case False
    then have "quickAddLoop keys label name i = label @ '' '' @ show_nat i"
      by (simp add: step quickAddLoop_free)
    then show ?thesis by auto
  next
    case True
    from "1.IH" [OF "1.prems" True] obtain n where n: "i + 1 \<le> n"
      "quickAddLoop keys label (label @ '' '' @ show_nat i) (i + 1) = label @ '' '' @ show_nat n"
      "\<forall>j. i + 1 \<le> j \<and> j < n \<longrightarrow> label @ '' '' @ show_nat j \<in> set keys"
      by blast
    have "\<forall>j. i \<le> j \<and> j < n \<longrightarrow> label @ '' '' @ show_nat j \<in> set keys"
    proof (intro allI impI)
      fix j assume j: "i \<le> j \<and> j < n"
      show "label @ '' '' @ show_nat j \<in> set keys"
      proof (cases "j = i")
        case True
        then show ?thesis using \<open>label @ '' '' @ show_nat i \<in> set keys\<close> by simp
      next
        case False
        with j n(3) show ?thesis by simp
      qed
    qed
    with n(1,2) step show ?thesis
      by (intro exI [of _ n]) simp
  qed
qed

lemma demo_facts:
  "columnConfigs demoState = initialColumns" "rows demoState = [demoRow]"
  "columnKeys demoState = [''status'', ''email'', ''amount'']"
  by (simp_all add: demoState_def initialState_def columnKeys_def initialColumns_def)

subsection \<open>Duplicating a column\<close>

lemma onDuplicate_at:
  assumes "i < length (columnConfigs s)" and "key (columnConfigs s ! i) = k"
    and "k \<notin> set (take i (columnKeys s))"
  defines "copyName \<equiv> dupLoop (columnKeys s) k (k @ '' (copy)'') 2"
  shows "columnConfigs (onDuplicate k s)
           = take (i + 1) (columnConfigs s) @ [(columnConfigs s ! i)\<lparr>key := copyName\<rparr>]
             @ drop (i + 1) (columnConfigs s)"
    and "rows (onDuplicate k s)
           = map (\<lambda>row. row(copyName \<mapsto>
                   nullish (row k) (getDefaultValue (type (columnConfigs s ! i))))) (rows s)"
proof -
  have f: "find (\<lambda>c. key c = k) (columnConfigs s) = Some (columnConfigs s ! i)"
    using assms(1-3) by (intro find_first) (simp_all add: columnKeys_def)
  have ix: "indexOf (columnKeys s) k = int i"
    using assms(1-3) by (intro indexOf_first) (simp_all add: columnKeys_def)
  have sl: "slice (columnConfigs s) 0 (int i + 1) = take (i + 1) (columnConfigs s)"
    using slice_prefix [of "columnConfigs s" "i + 1"] by (simp add: add.commute)
  have sf: "sliceFrom (columnConfigs s) (int i + 1) = drop (i + 1) (columnConfigs s)"
    using sliceFrom_nat [of "columnConfigs s" "i + 1"] by (simp add: add.commute)
  show "columnConfigs (onDuplicate k s)
           = take (i + 1) (columnConfigs s) @ [(columnConfigs s ! i)\<lparr>key := copyName\<rparr>]
             @ drop (i + 1) (columnConfigs s)"
    by (simp add: onDuplicate_def f ix Let_def sl sf copyName_def)
  show "rows (onDuplicate k s)
           = map (\<lambda>row. row(copyName \<mapsto>
                   nullish (row k) (getDefaultValue (type (columnConfigs s ! i))))) (rows s)"
    by (simp add: onDuplicate_def f Let_def copyName_def)
qed

lemma onDuplicate_twice_effect:
  assumes i: "i < length (columnConfigs s)" and ki: "key (columnConfigs s ! i) = k"
    and first: "k \<notin> set (take i (columnKeys s))"
    and free1: "k @ '' (copy)'' \<notin> set (columnKeys s)"
    and free2: "k @ '' (copy 2)'' \<notin> set (columnKeys s)"
  shows "columnConfigs (onDuplicate k s)
           = take (i + 1) (columnConfigs s)
             @ [(columnConfigs s ! i)\<lparr>key := k @ '' (copy)''\<rparr>]
             @ drop (i + 1) (columnConfigs s)
   \<and> columnConfigs (onDuplicate k (onDuplicate k s))
           = take (i + 1) (columnConfigs s)
             @ [(columnConfigs s ! i)\<lparr>key := k @ '' (copy 2)''\<rparr>,
                (columnConfigs s ! i)\<lparr>key := k @ '' (copy)''\<rparr>]
             @ drop (i + 1) (columnConfigs s)
   \<and> length (rows (onDuplicate k (onDuplicate k s))) = length (rows s)
   \<and> (\<forall>j < length (rows s).
         (rows (onDuplicate k (onDuplicate k s)) ! j) (k @ '' (copy)'')
            = Some (nullish ((rows s ! j) k) (getDefaultValue (type (columnConfigs s ! i))))
       \<and> (rows (onDuplicate k (onDuplicate k s)) ! j) (k @ '' (copy 2)'')
            = Some (nullish ((rows s ! j) k) (getDefaultValue (type (columnConfigs s ! i))))
       \<and> (\<forall>k'. k' \<noteq> k @ '' (copy)'' \<and> k' \<noteq> k @ '' (copy 2)'' \<longrightarrow>
             (rows (onDuplicate k (onDuplicate k s)) ! j) k' = (rows s ! j) k'))"
proof -
  let ?cs = "columnConfigs s" and ?s1 = "onDuplicate k s"
  let ?c1 = "(?cs ! i)\<lparr>key := k @ '' (copy)''\<rparr>"
  let ?d = "getDefaultValue (type (?cs ! i)) :: 'a jsval"
  have n1: "dupLoop (columnKeys s) k (k @ '' (copy)'') 2 = k @ '' (copy)''"
    using free1 by (rule dupLoop_free)
  have cols1: "columnConfigs ?s1 = take (i + 1) ?cs @ [?c1] @ drop (i + 1) ?cs"
    using onDuplicate_at(1) [OF i ki first] by (simp add: n1)
  have rows1: "rows ?s1 = map (\<lambda>row. row(k @ '' (copy)'' \<mapsto> nullish (row k) ?d)) (rows s)"
    using onDuplicate_at(2) [OF i ki first] by (simp add: n1)
  have lt: "length (take (i + 1) ?cs) = i + 1" using i by simp
  have at1: "columnConfigs ?s1 ! i = ?cs ! i"
    using i by (simp add: cols1 nth_append)
  have keys1: "columnKeys ?s1
      = take (i + 1) (columnKeys s) @ [k @ '' (copy)''] @ drop (i + 1) (columnKeys s)"
    by (simp add: columnKeys_def cols1 take_map drop_map)
  have i1: "i < length (columnConfigs ?s1)" using i by (simp add: cols1)
  have ki1: "key (columnConfigs ?s1 ! i) = k" by (simp add: at1 ki)
  have lk: "length (columnKeys s) = length ?cs" by (simp add: columnKeys_def)
  have "take i (columnKeys ?s1) = take i (columnKeys s)"
    unfolding keys1 using i by (simp add: lk min_def)
  then have first1: "k \<notin> set (take i (columnKeys ?s1))"
    using first by simp
  have in1: "k @ '' (copy)'' \<in> set (columnKeys ?s1)" by (simp add: keys1)
  have "set (columnKeys ?s1) = insert (k @ '' (copy)'') (set (take (i + 1) (columnKeys s) @ drop (i + 1) (columnKeys s)))"
    by (simp add: keys1 del: append_take_drop_id)
  then have out2: "k @ '' (copy 2)'' \<notin> set (columnKeys ?s1)"
    using free2 by simp
  have n2: "dupLoop (columnKeys ?s1) k (k @ '' (copy)'') 2 = k @ '' (copy 2)''"
    using out2 by (simp add: dupLoop_taken [OF in1] show_nat_2 dupLoop_free)
  have cols2: "columnConfigs (onDuplicate k ?s1)
      = take (i + 1) ?cs @ [(?cs ! i)\<lparr>key := k @ '' (copy 2)''\<rparr>, ?c1] @ drop (i + 1) ?cs"
  proof -
    have tk: "take (i + 1) (columnConfigs ?s1) = take (i + 1) ?cs"
      unfolding cols1 using i by simp
    have dr: "drop (i + 1) (columnConfigs ?s1) = ?c1 # drop (i + 1) ?cs"
      unfolding cols1 using i by simp
    show ?thesis
      unfolding onDuplicate_at(1) [OF i1 ki1 first1] n2 tk dr at1 by simp
  qed
  have rows2: "rows (onDuplicate k ?s1)
      = map (\<lambda>row. row(k @ '' (copy 2)'' \<mapsto> nullish (row k) ?d)) (rows ?s1)"
    using onDuplicate_at(2) [OF i1 ki1 first1] by (simp add: n2 at1)
  show ?thesis
    by (simp add: cols1 cols2 rows2 rows1)
qed

text \<open>
  Claim C3, as the code has it. Let \<open>amount\<close> be the key of a column, first found at
  index \<open>i\<close>, and let neither \<open>amount (copy)\<close> nor \<open>amount (copy 2)\<close> be a column
  key. One duplication puts the copy \<open>amount (copy)\<close> at index \<open>i + 1\<close>. A second
  duplication of \<open>amount\<close> puts \<open>amount (copy 2)\<close> at index \<open>i + 1\<close> again, so the
  order is \<open>amount\<close>, \<open>amount (copy 2)\<close>, \<open>amount (copy)\<close>. Each copy has the type
  and the options of the source. In every row both new entries hold the row's value
  under \<open>amount\<close>, or the default value of the type when that value is missing,
  undefined or null; all other entries are unchanged.
\<close>


theorem onDuplicate_twice:
  assumes "i < length (columnConfigs s)" and "key (columnConfigs s ! i) = ''amount''"
    and "''amount'' \<notin> set (take i (columnKeys s))"
    and "''amount (copy)'' \<notin> set (columnKeys s)"
    and "''amount (copy 2)'' \<notin> set (columnKeys s)"
  shows "columnConfigs (onDuplicate ''amount'' s)
           = take (i + 1) (columnConfigs s)
             @ [(columnConfigs s ! i)\<lparr>key := ''amount (copy)''\<rparr>]
             @ drop (i + 1) (columnConfigs s)
   \<and> columnConfigs (onDuplicate ''amount'' (onDuplicate ''amount'' s))
           = take (i + 1) (columnConfigs s)
             @ [(columnConfigs s ! i)\<lparr>key := ''amount (copy 2)''\<rparr>,
                (columnConfigs s ! i)\<lparr>key := ''amount (copy)''\<rparr>]
             @ drop (i + 1) (columnConfigs s)
   \<and> length (rows (onDuplicate ''amount'' (onDuplicate ''amount'' s))) = length (rows s)
   \<and> (\<forall>j < length (rows s).
         (rows (onDuplicate ''amount'' (onDuplicate ''amount'' s)) ! j) ''amount (copy)''
            = Some (nullish ((rows s ! j) ''amount'')
                      (getDefaultValue (type (columnConfigs s ! i))))
       \<and> (rows (onDuplicate ''amount'' (onDuplicate ''amount'' s)) ! j) ''amount (copy 2)''
            = Some (nullish ((rows s ! j) ''amount'')
                      (getDefaultValue (type (columnConfigs s ! i))))
       \<and> (\<forall>k'. k' \<noteq> ''amount (copy)'' \<and> k' \<noteq> ''amount (copy 2)'' \<longrightarrow>
             (rows (onDuplicate ''amount'' (onDuplicate ''amount'' s)) ! j) k'
               = (rows s ! j) k'))"
  using onDuplicate_twice_effect [of i s "''amount''"] assms by simp

theorem onDuplicate_twice_witness:
  "map key (columnConfigs (onDuplicate ''amount'' (onDuplicate ''amount'' demoState)))
     = [''status'', ''email'', ''amount'', ''amount (copy 2)'', ''amount (copy)'']
   \<and> map type (columnConfigs (onDuplicate ''amount'' (onDuplicate ''amount'' demoState)))
     = [T_text, T_email, T_currency, T_currency, T_currency]
   \<and> (rows (onDuplicate ''amount'' (onDuplicate ''amount'' demoState)) ! 0) ''amount (copy)''
     = Some (JNum 100)
   \<and> (rows (onDuplicate ''amount'' (onDuplicate ''amount'' demoState)) ! 0) ''amount (copy 2)''
     = Some (JNum 100)
   \<and> (rows (onDuplicate ''amount'' (onDuplicate ''amount'' demoState)) ! 0) ''amount''
     = Some (JNum 100)"
proof -
  have h: "2 < length (columnConfigs demoState)" "key (columnConfigs demoState ! 2) = ''amount''"
    "''amount'' \<notin> set (take 2 (columnKeys demoState))"
    "''amount (copy)'' \<notin> set (columnKeys demoState)"
    "''amount (copy 2)'' \<notin> set (columnKeys demoState)"
    by (simp_all add: demo_facts initialColumns_def)
  note D = onDuplicate_twice [OF h, THEN conjunct2]
  note R = D [THEN conjunct2, THEN conjunct2, rule_format, of 0]
  show ?thesis
    using D [THEN conjunct1] R [THEN conjunct1] R [THEN conjunct2, THEN conjunct1]
      R [THEN conjunct2, THEN conjunct2, rule_format, of "''amount''"]
    by (simp add: demo_facts initialColumns_def demoRow_def)
qed

text \<open>
  The claim as stated fails. On the demo table the second copy stands between the source and
  the first copy, not after the first copy. On a table that already has the column
  \<open>amount (copy)\<close> the first duplication is named \<open>amount (copy 2)\<close>, and a null amount is
  copied as the default value of the type.
\<close>


lemma dup_order_demo:
  "map key (columnConfigs (onDuplicate ''amount'' (onDuplicate ''amount'' demoState)))
     = [''status'', ''email'', ''amount'', ''amount (copy 2)'', ''amount (copy)'']"
proof -
  have h: "2 < length (columnConfigs demoState)" "key (columnConfigs demoState ! 2) = ''amount''"
    "''amount'' \<notin> set (take 2 (columnKeys demoState))"
    "''amount'' @ '' (copy)'' \<notin> set (columnKeys demoState)"
    "''amount'' @ '' (copy 2)'' \<notin> set (columnKeys demoState)"
    by (simp_all add: demo_facts initialColumns_def)
  show ?thesis
    using onDuplicate_twice_effect [OF h, THEN conjunct2, THEN conjunct1]
    by (simp add: demo_facts initialColumns_def)
qed

lemma copied_once:
  "columnConfigs (onDuplicate ''amount'' copiedState)
     = [\<lparr>key = ''amount'', type = T_currency, options = None\<rparr>,
        \<lparr>key = ''amount (copy 2)'', type = T_currency, options = None\<rparr>,
        \<lparr>key = ''amount (copy)'', type = T_currency, options = None\<rparr>]"
  "rows (onDuplicate ''amount'' copiedState)
     = [[''id'' \<mapsto> JStr ''r1'', ''amount'' \<mapsto> JNull, ''amount (copy)'' \<mapsto> JNum 5,
         ''amount (copy 2)'' \<mapsto> JStr []]]"
proof -
  have k: "columnKeys copiedState = [''amount'', ''amount (copy)'']"
    by (simp add: copiedState_def initialState_def columnKeys_def)
  have n: "dupLoop (columnKeys copiedState) ''amount'' (''amount'' @ '' (copy)'') 2
      = ''amount (copy 2)''"
    by (simp add: k dupLoop_taken show_nat_2 dupLoop_free)
  have h: "0 < length (columnConfigs copiedState)" "key (columnConfigs copiedState ! 0) = ''amount''"
    "''amount'' \<notin> set (take 0 (columnKeys copiedState))"
    by (simp_all add: copiedState_def initialState_def)
  show "columnConfigs (onDuplicate ''amount'' copiedState)
     = [\<lparr>key = ''amount'', type = T_currency, options = None\<rparr>,
        \<lparr>key = ''amount (copy 2)'', type = T_currency, options = None\<rparr>,
        \<lparr>key = ''amount (copy)'', type = T_currency, options = None\<rparr>]"
    unfolding onDuplicate_at(1) [OF h] n by (simp add: copiedState_def initialState_def)
  show "rows (onDuplicate ''amount'' copiedState)
     = [[''id'' \<mapsto> JStr ''r1'', ''amount'' \<mapsto> JNull, ''amount (copy)'' \<mapsto> JNum 5,
         ''amount (copy 2)'' \<mapsto> JStr []]]"
    unfolding onDuplicate_at(2) [OF h] n by (simp add: copiedState_def initialState_def)
qed

theorem onDuplicate_twice_counterexample:
  "map key (columnConfigs (onDuplicate ''amount'' (onDuplicate ''amount'' demoState)))
     = [''status'', ''email'', ''amount'', ''amount (copy 2)'', ''amount (copy)'']
   \<and> map key (columnConfigs (onDuplicate ''amount'' (onDuplicate ''amount'' demoState)))
     \<noteq> [''status'', ''email'', ''amount'', ''amount (copy)'', ''amount (copy 2)'']
   \<and> map key (columnConfigs (onDuplicate ''amount'' copiedState))
     = [''amount'', ''amount (copy 2)'', ''amount (copy)'']
   \<and> (rows copiedState ! 0) ''amount'' = Some JNull
   \<and> (rows (onDuplicate ''amount'' copiedState) ! 0) ''amount (copy 2)'' = Some (JStr [])"
  by (simp add: dup_order_demo copied_once) (simp add: copiedState_def initialState_def)

subsection \<open>Quick-adding a column\<close>

lemma handleQuickAdd_effect:
  fixes s :: "'n state"
  assumes "t \<noteq> T_select"
  defines "name \<equiv> quickAddLoop (columnKeys s) (COLUMN_TYPE_LABELS t) (COLUMN_TYPE_LABELS t) 2"
  shows "columnConfigs (handleQuickAdd t s)
           = columnConfigs s @ [\<lparr>key = name, type = t, options = None\<rparr>]"
    and "rows (handleQuickAdd t s) = map (\<lambda>row. row(name \<mapsto> getDefaultValue t)) (rows s)"
  using assms(1) by (simp_all add: handleQuickAdd_def Let_def name_def)

lemma handleQuickAdd_select_effect:
  "columnConfigs (handleQuickAdd T_select s) = columnConfigs s"
  "rows (handleQuickAdd T_select s) = rows s"
  "pendingAction (handleQuickAdd T_select s)
     = Some (Insert (if columnKeys s = [] then [] else last (columnKeys s)) Right)"
  "dialogType (handleQuickAdd T_select s) = T_select"
  by (simp_all add: handleQuickAdd_def openDialog_def)

lemma handleQuickAdd_text_twice:
  assumes "''Text'' \<notin> set (columnKeys s)" and "''Text 2'' \<notin> set (columnKeys s)"
  shows "columnKeys (handleQuickAdd T_text (handleQuickAdd T_text s))
         = columnKeys s @ [''Text'', ''Text 2'']"
proof -
  have n1: "quickAddLoop (columnKeys s) ''Text'' ''Text'' 2 = ''Text''"
    using assms(1) by (rule quickAddLoop_free)
  have k1: "columnKeys (handleQuickAdd T_text s) = columnKeys s @ [''Text'']"
    by (simp add: columnKeys_def handleQuickAdd_effect(1) n1 [unfolded columnKeys_def])
  have n2: "quickAddLoop (columnKeys (handleQuickAdd T_text s)) ''Text'' ''Text'' 2 = ''Text 2''"
    using assms(2) by (simp add: k1 quickAddLoop_taken show_nat_2 quickAddLoop_free)
  show ?thesis
    using n2 k1 by (simp add: columnKeys_def handleQuickAdd_effect(1) [of T_text "handleQuickAdd T_text s"])
qed

text \<open>
  Claim C4, as the code has it. For a type other than select, quick-add takes the
  display label of the type when it is free and otherwise the label followed by a space
  and the first number from 2 on that gives a free name; it appends the column (with the
  type, without options) at the end and sets the new entry of every row to the default
  value of the type, leaving the other entries alone. For select it changes neither the
  columns nor the rows: it opens the insert dialog to the right of the last column. Two
  quick-adds of text on a table with neither a \<open>Text\<close> nor a \<open>Text 2\<close> column
  append \<open>Text\<close> and then \<open>Text 2\<close>.
\<close>


theorem handleQuickAdd_spec:
  fixes t :: ColumnType and s :: "'n state"
  defines "label \<equiv> COLUMN_TYPE_LABELS t"
  defines "name \<equiv> quickAddLoop (columnKeys s) (COLUMN_TYPE_LABELS t) (COLUMN_TYPE_LABELS t) 2"
  shows "(t \<noteq> T_select \<longrightarrow>
            name \<notin> set (columnKeys s)
          \<and> (label \<notin> set (columnKeys s) \<longrightarrow> name = label)
          \<and> (label \<in> set (columnKeys s) \<longrightarrow>
               (\<exists>n\<ge>2. name = label @ '' '' @ show_nat n
                  \<and> (\<forall>j. 2 \<le> j \<and> j < n \<longrightarrow> label @ '' '' @ show_nat j \<in> set (columnKeys s))))
          \<and> columnConfigs (handleQuickAdd t s)
               = columnConfigs s @ [\<lparr>key = name, type = t, options = None\<rparr>]
          \<and> length (rows (handleQuickAdd t s)) = length (rows s)
          \<and> (\<forall>j < length (rows s).
                (rows (handleQuickAdd t s) ! j) name = Some (getDefaultValue t)
                \<and> (\<forall>k. k \<noteq> name \<longrightarrow> (rows (handleQuickAdd t s) ! j) k = (rows s ! j) k)))
   \<and> columnConfigs (handleQuickAdd T_select s) = columnConfigs s
   \<and> rows (handleQuickAdd T_select s) = rows s
   \<and> pendingAction (handleQuickAdd T_select s)
        = Some (Insert (if columnKeys s = [] then [] else last (columnKeys s)) Right)
   \<and> dialogType (handleQuickAdd T_select s) = T_select
   \<and> (''Text'' \<notin> set (columnKeys s) \<and> ''Text 2'' \<notin> set (columnKeys s) \<longrightarrow>
         columnKeys (handleQuickAdd T_text (handleQuickAdd T_text s))
           = columnKeys s @ [''Text'', ''Text 2''])"
proof -
  have A: "name \<notin> set (columnKeys s)"
    unfolding name_def by (rule quickAddLoop_fresh)
  have B: "label \<notin> set (columnKeys s) \<longrightarrow> name = label"
    unfolding name_def label_def by (simp add: quickAddLoop_free)
  have C: "label \<in> set (columnKeys s) \<longrightarrow>
               (\<exists>n\<ge>2. name = label @ '' '' @ show_nat n
                  \<and> (\<forall>j. 2 \<le> j \<and> j < n \<longrightarrow> label @ '' '' @ show_nat j \<in> set (columnKeys s)))"
    unfolding name_def label_def using quickAddLoop_search [of _ "columnKeys s" 2] by blast
  have D: "t \<noteq> T_select \<longrightarrow>
      columnConfigs (handleQuickAdd t s) = columnConfigs s @ [\<lparr>key = name, type = t, options = None\<rparr>]
      \<and> length (rows (handleQuickAdd t s)) = length (rows s)
      \<and> (\<forall>j < length (rows s).
            (rows (handleQuickAdd t s) ! j) name = Some (getDefaultValue t)
            \<and> (\<forall>k. k \<noteq> name \<longrightarrow> (rows (handleQuickAdd t s) ! j) k = (rows s ! j) k))"
    by (simp add: handleQuickAdd_effect name_def)
  show ?thesis
    using A B C D handleQuickAdd_select_effect [of s] handleQuickAdd_text_twice [of s]
    by simp
qed

theorem handleQuickAdd_spec_witness:
  "columnKeys (handleQuickAdd T_text (handleQuickAdd T_text demoState))
     = [''status'', ''email'', ''amount'', ''Text'', ''Text 2'']
   \<and> columnConfigs (handleQuickAdd T_checkbox demoState)
     = initialColumns @ [\<lparr>key = ''Checkbox'', type = T_checkbox, options = None\<rparr>]
   \<and> (rows (handleQuickAdd T_checkbox demoState) ! 0) ''Checkbox'' = Some (JBool False)
   \<and> (rows (handleQuickAdd T_checkbox demoState) ! 0) ''email'' = Some (JStr ''m@example.com'')
   \<and> columnConfigs (handleQuickAdd T_select demoState) = initialColumns
   \<and> rows (handleQuickAdd T_select demoState) = [demoRow]
   \<and> pendingAction (handleQuickAdd T_select demoState) = Some (Insert ''amount'' Right)"
proof -
  note Q = handleQuickAdd_spec [of T_checkbox demoState]
  have ne: "T_checkbox \<noteq> T_select" by simp
  note Q1 = Q [THEN conjunct1, rule_format, OF ne]
  have fresh: "COLUMN_TYPE_LABELS T_checkbox \<notin> set (columnKeys demoState)"
    by (simp add: demo_facts)
  have name: "quickAddLoop [''status'', ''email'', ''amount''] ''Checkbox'' ''Checkbox'' 2
      = ''Checkbox''"
    using Q1 [THEN conjunct2, THEN conjunct1, rule_format, OF fresh]
    by (simp add: demo_facts)
  note Q2 = Q1 [THEN conjunct2, THEN conjunct2, THEN conjunct2]
  note Q3 = Q2 [THEN conjunct2, THEN conjunct2, rule_format, of 0]
  have two: "''Text'' \<notin> set (columnKeys demoState) \<and> ''Text 2'' \<notin> set (columnKeys demoState)"
    by (simp add: demo_facts)
  note T = Q [THEN conjunct2, THEN conjunct2, THEN conjunct2, THEN conjunct2, THEN conjunct2,
      rule_format, OF two]
  show ?thesis
    using Q2 [THEN conjunct1] Q3 [THEN conjunct1]
      Q3 [THEN conjunct2, rule_format, of "''email''"] T
      Q [THEN conjunct2, THEN conjunct1]
      Q [THEN conjunct2, THEN conjunct2, THEN conjunct1]
      Q [THEN conjunct2, THEN conjunct2, THEN conjunct2, THEN conjunct1]
    by (simp add: name demo_facts demoRow_def)
qed

text \<open>
  The claim as stated fails. Quick-add of select appends no column. On a table with a
  column \<open>Text 2\<close> and no column \<open>Text\<close>, two quick-adds of text give \<open>Text\<close> and
  then \<open>Text 3\<close>.
\<close>


lemma numbered_twice:
  "columnKeys (handleQuickAdd T_text (handleQuickAdd T_text numberedState))
     = [''Text 2'', ''Text'', ''Text 3'']"
proof -
  have k: "columnKeys numberedState = [''Text 2'']"
    by (simp add: numberedState_def initialState_def columnKeys_def)
  have n1: "quickAddLoop [''Text 2''] ''Text'' ''Text'' 2 = ''Text''"
    by (simp add: quickAddLoop_free)
  have c1: "columnConfigs (handleQuickAdd T_text numberedState)
      = columnConfigs numberedState @ [\<lparr>key = ''Text'', type = T_text, options = None\<rparr>]"
    by (simp add: handleQuickAdd_effect(1) k n1)
  have k1: "columnKeys (handleQuickAdd T_text numberedState) = [''Text 2'', ''Text'']"
    using k by (simp add: columnKeys_def c1)
  have n2: "quickAddLoop [''Text 2'', ''Text''] ''Text'' ''Text'' 2 = ''Text 3''"
    by (simp add: quickAddLoop_taken show_nat_2 show_nat_3 quickAddLoop_free)
  have c2: "columnConfigs (handleQuickAdd T_text (handleQuickAdd T_text numberedState))
      = columnConfigs (handleQuickAdd T_text numberedState)
        @ [\<lparr>key = ''Text 3'', type = T_text, options = None\<rparr>]"
    by (simp add: handleQuickAdd_effect(1) k1 n2)
  show ?thesis
    using k1 by (simp add: columnKeys_def c2)
qed

theorem handleQuickAdd_spec_counterexample:
  "columnConfigs (handleQuickAdd T_select demoState) = columnConfigs demoState
   \<and> length (columnConfigs (handleQuickAdd T_select demoState)) = 3
   \<and> ''Text'' \<notin> set (columnKeys numberedState)
   \<and> columnKeys (handleQuickAdd T_text (handleQuickAdd T_text numberedState))
       = [''Text 2'', ''Text'', ''Text 3'']"
  by (simp add: handleQuickAdd_select_effect numbered_twice demo_facts initialColumns_def)
    (simp add: numberedState_def initialState_def columnKeys_def)

subsection \<open>The invariants\<close>

lemma renameColumn_rejected:
  assumes "trim cand = [] \<or> (trim cand \<noteq> oldKey \<and> trim cand \<in> set (columnKeys s))"
  shows "columnConfigs (renameColumn oldKey cand t opts s) = columnConfigs s"
    and "rows (renameColumn oldKey cand t opts s) = rows s"
  using assms
  by (auto simp: renameColumn_def handleDialogSubmit_def openDialog_def columnKeys_def Let_def)

lemma insertColumn_rejected:
  assumes "trim cand = [] \<or> trim cand \<in> set (columnKeys s)"
  shows "columnConfigs (insertColumn anchor side cand t opts s) = columnConfigs s"
    and "rows (insertColumn anchor side cand t opts s) = rows s"
  using assms
  by (auto simp: insertColumn_def handleDialogSubmit_def openDialog_def columnKeys_def Let_def)

lemma invariants_cong:
  assumes "columnConfigs s' = columnConfigs s" and "rows s' = rows s"
  shows "keysDistinct s' = keysDistinct s" and "rowsComplete s' = rowsComplete s"
  using assms by (simp_all add: keysDistinct_def rowsComplete_def columnKeys_def)

lemma invariants_new_column:
  assumes "keysDistinct s" and "rowsComplete s" and "name \<notin> set (columnKeys s)"
    and "columnKeys s' = take n (columnKeys s) @ [name] @ drop n (columnKeys s)"
    and "rows s' = map (\<lambda>row. row(name \<mapsto> f row)) (rows s)"
  shows "keysDistinct s' \<and> rowsComplete s'"
proof
  show "keysDistinct s'"
    using assms(1,3) unfolding keysDistinct_def assms(4) by (rule distinct_insert_at)
  show "rowsComplete s'"
    using assms(2) unfolding rowsComplete_def assms(4) assms(5) set_insert_at
    by auto
qed

lemma invariants_renamed:
  assumes "keysDistinct s" and "rowsComplete s" and "name \<notin> set (columnKeys s)"
    and "columnKeys s' = map (\<lambda>k. if k = oldKey then name else k) (columnKeys s)"
    and "rows s' = map (\<lambda>row. (row(oldKey := None))(name \<mapsto> f row)) (rows s)"
  shows "keysDistinct s' \<and> rowsComplete s'"
proof
  show "keysDistinct s'"
    using assms(1,3) unfolding keysDistinct_def assms(4) by (rule distinct_rename)
  show "rowsComplete s'"
    using assms(2) unfolding rowsComplete_def assms(4) assms(5)
    by auto
qed

lemma keys_of_renamed:
  "map key (map (\<lambda>c. if key c \<noteq> oldKey then c else c\<lparr>key := n, type := t, options := os\<rparr>) cs)
     = map (\<lambda>k. if k = oldKey then n else k) (map key cs)"
  by (induction cs) auto

lemma renameColumn_invariants:
  assumes "keysDistinct s" and "rowsComplete s"
  shows "keysDistinct (renameColumn oldKey cand t opts s)
         \<and> rowsComplete (renameColumn oldKey cand t opts s)"
proof (cases "trim cand = [] \<or> (trim cand \<noteq> oldKey \<and> trim cand \<in> set (columnKeys s))")
  case True
  then show ?thesis
    using assms invariants_cong [OF renameColumn_rejected [OF True]] by simp
next
  case False
  then have c: "trim cand \<noteq> []" "trim cand = oldKey \<or> trim cand \<notin> set (columnKeys s)"
    by auto
  show ?thesis
  proof (cases "trim cand = oldKey")
    case same: True
    have "columnKeys (renameColumn oldKey cand t opts s) = columnKeys s"
      unfolding columnKeys_def renameColumn_columns [OF c] keys_of_renamed
      by (simp add: same)
    moreover have "rows (renameColumn oldKey cand t opts s) = rows s"
      by (simp add: renameColumn_rows [OF c] same)
    ultimately show ?thesis
      using assms by (simp add: keysDistinct_def rowsComplete_def)
  next
    case diff: False
    with c have fresh: "trim cand \<notin> set (columnKeys s)" by simp
    show ?thesis
    proof (rule invariants_renamed [OF assms fresh])
      show "columnKeys (renameColumn oldKey cand t opts s)
            = map (\<lambda>k. if k = oldKey then trim cand else k) (columnKeys s)"
        unfolding columnKeys_def renameColumn_columns [OF c] keys_of_renamed ..
      show "rows (renameColumn oldKey cand t opts s)
            = map (\<lambda>row. (row(oldKey := None))
                    (trim cand \<mapsto> (case row oldKey of None \<Rightarrow> JUndefined | Some v \<Rightarrow> v)))
                (rows s)"
        by (simp add: renameColumn_rows [OF c] diff)
    qed
  qed
qed

lemma insertColumn_invariants:
  assumes "keysDistinct s" and "rowsComplete s"
  shows "keysDistinct (insertColumn anchor side cand t opts s)
         \<and> rowsComplete (insertColumn anchor side cand t opts s)"
proof (cases "trim cand = [] \<or> trim cand \<in> set (columnKeys s)")
  case True
  then show ?thesis
    using assms invariants_cong [OF insertColumn_rejected [OF True]] by simp
next
  case False
  then have c: "trim cand \<noteq> []" "trim cand \<notin> set (columnKeys s)" by auto
  obtain n where n: "columnConfigs (insertColumn anchor side cand t opts s)
      = take n (columnConfigs s)
        @ [\<lparr>key = trim cand, type = t, options = (if t = T_select then Some opts else None)\<rparr>]
        @ drop n (columnConfigs s)"
    unfolding insertColumn_unfold(1) [OF c] Let_def slice_from_start sliceFrom_def by blast
  show ?thesis
  proof (rule invariants_new_column [OF assms c(2)])
    show "columnKeys (insertColumn anchor side cand t opts s)
          = take n (columnKeys s) @ [trim cand] @ drop n (columnKeys s)"
      by (simp add: columnKeys_def n take_map drop_map)
    show "rows (insertColumn anchor side cand t opts s)
          = map (\<lambda>row. row(trim cand \<mapsto> getDefaultValue t)) (rows s)"
      by (rule insertColumn_unfold(2) [OF c])
  qed
qed

lemma onDuplicate_invariants:
  assumes "keysDistinct s" and "rowsComplete s"
  shows "keysDistinct (onDuplicate k s) \<and> rowsComplete (onDuplicate k s)"
proof (cases "find (\<lambda>c. key c = k) (columnConfigs s)")
  case None
  then show ?thesis using assms by (simp add: onDuplicate_def)
next
  case (Some config)
  define copyName where "copyName = dupLoop (columnKeys s) k (k @ '' (copy)'') 2"
  define n where "n = clampIdx (indexOf (columnKeys s) k + 1) (length (columnConfigs s))"
  have fresh: "copyName \<notin> set (columnKeys s)"
    unfolding copyName_def by (rule dupLoop_fresh)
  have cols: "columnConfigs (onDuplicate k s)
      = take n (columnConfigs s) @ [config\<lparr>key := copyName\<rparr>] @ drop n (columnConfigs s)"
    by (simp add: onDuplicate_def Some Let_def slice_from_start sliceFrom_def copyName_def n_def)
  have rws: "rows (onDuplicate k s)
      = map (\<lambda>row. row(copyName \<mapsto> nullish (row k) (getDefaultValue (type config)))) (rows s)"
    by (simp add: onDuplicate_def Some Let_def copyName_def)
  show ?thesis
  proof (rule invariants_new_column [OF assms fresh])
    show "columnKeys (onDuplicate k s)
          = take n (columnKeys s) @ [copyName] @ drop n (columnKeys s)"
      by (simp add: columnKeys_def cols take_map drop_map)
    show "rows (onDuplicate k s)
      = map (\<lambda>row. row(copyName \<mapsto> nullish (row k) (getDefaultValue (type config)))) (rows s)"
      by (rule rws)
  qed
qed

lemma handleQuickAdd_invariants:
  assumes "keysDistinct s" and "rowsComplete s"
  shows "keysDistinct (handleQuickAdd t s) \<and> rowsComplete (handleQuickAdd t s)"
proof (cases "t = T_select")
  case True
  then show ?thesis
    using assms invariants_cong [OF handleQuickAdd_select_effect(1,2) [of s]] by simp
next
  case False
  define name where
    "name = quickAddLoop (columnKeys s) (COLUMN_TYPE_LABELS t) (COLUMN_TYPE_LABELS t) 2"
  have fresh: "name \<notin> set (columnKeys s)"
    unfolding name_def by (rule quickAddLoop_fresh)
  show ?thesis
  proof (rule invariants_new_column [OF assms fresh])
    show "columnKeys (handleQuickAdd t s)
          = take (length (columnKeys s)) (columnKeys s) @ [name]
            @ drop (length (columnKeys s)) (columnKeys s)"
      using False by (simp add: handleQuickAdd_def columnKeys_def Let_def name_def)
    show "rows (handleQuickAdd t s) = map (\<lambda>row. row(name \<mapsto> getDefaultValue t)) (rows s)"
      using False by (simp add: handleQuickAdd_def Let_def name_def)
  qed
qed

lemma onDelete_invariants:
  assumes "keysDistinct s" and "rowsComplete s"
  shows "keysDistinct (onDelete k s) \<and> rowsComplete (onDelete k s)"
  using assms
  by (auto simp: onDelete_def keysDistinct_def rowsComplete_def columnKeys_def distinct_map_filter)

lemma onHide_invariants:
  assumes "keysDistinct s" and "rowsComplete s"
  shows "keysDistinct (onHide k s) \<and> rowsComplete (onHide k s)"
  using assms by (simp add: onHide_def keysDistinct_def rowsComplete_def columnKeys_def)

lemma dupLoop_avoids:
  "copyName \<noteq> p \<Longrightarrow> (\<And>j. k @ '' (copy '' @ show_nat j @ '')'' \<noteq> p)
     \<Longrightarrow> dupLoop keys k copyName i \<noteq> p"
  by (induction keys k copyName i rule: dupLoop.induct) (subst dupLoop.simps, simp)

lemma quickAddLoop_avoids:
  "name \<noteq> p \<Longrightarrow> (\<And>j. label @ '' '' @ show_nat j \<noteq> p)
     \<Longrightarrow> quickAddLoop keys label name i \<noteq> p"
  by (induction keys label name i rule: quickAddLoop.induct) (subst quickAddLoop.simps, simp)

lemma copy_names_not_proto:
  "k @ '' (copy)'' \<noteq> ''__proto__''" "k @ '' (copy '' @ show_nat j @ '')'' \<noteq> ''__proto__''"
proof -
  show "k @ '' (copy)'' \<noteq> ''__proto__''"
  proof
    assume "k @ '' (copy)'' = ''__proto__''"
    then have "last (k @ '' (copy)'') = last ''__proto__''" by simp
    then show False by simp
  qed
  show "k @ '' (copy '' @ show_nat j @ '')'' \<noteq> ''__proto__''"
  proof
    assume "k @ '' (copy '' @ show_nat j @ '')'' = ''__proto__''"
    then have "last (k @ '' (copy '' @ show_nat j @ '')'') = last ''__proto__''" by simp
    then show False by simp
  qed
qed

lemma label_names_not_proto:
  "COLUMN_TYPE_LABELS t \<noteq> ''__proto__''"
  "COLUMN_TYPE_LABELS t @ '' '' @ show_nat j \<noteq> ''__proto__''"
  by (cases t; simp)+

lemma emptyRow_dom_mono:
  "k \<in> dom r0 \<Longrightarrow>
     k \<in> dom (foldl (\<lambda>r config. assignProperty r (key config) (d config)) r0 cs)"
  by (induction cs arbitrary: r0) (auto simp: assignProperty_def)

lemma emptyRow_dom:
  "k \<in> key ` set cs \<Longrightarrow> k \<noteq> ''__proto__'' \<Longrightarrow>
     k \<in> dom (foldl (\<lambda>r config. assignProperty r (key config) (d config)) r0 cs)"
proof (induction cs arbitrary: r0)
  case Nil
  then show ?case by simp
next
  case (Cons c cs)
  show ?case
  proof (cases "key c = k")
    case True
    with Cons.prems(2) have "k \<in> dom (assignProperty r0 (key c) (d c))"
      by (simp add: assignProperty_def)
    from emptyRow_dom_mono [OF this] show ?thesis by simp
  next
    case False
    with Cons.prems have "k \<in> key ` set cs" by auto
    from Cons.IH [OF this Cons.prems(2)] show ?thesis by simp
  qed
qed

lemma handleAddRow_invariants:
  assumes "keysDistinct s" and "rowsComplete s" and "protoFree s"
  shows "keysDistinct (handleAddRow uuid s) \<and> rowsComplete (handleAddRow uuid s)"
proof -
  have "k \<in> dom (foldl (\<lambda>r config. assignProperty r (key config) (getDefaultValue (type config)))
                  [''id'' \<mapsto> JStr uuid] (columnConfigs s))"
    if "k \<in> key ` set (columnConfigs s)" for k
  proof (rule emptyRow_dom [OF that])
    show "k \<noteq> ''__proto__''"
      using that assms(3) unfolding protoFree_def columnKeys_def set_map by blast
  qed
  then show ?thesis
    using assms(1,2)
    by (auto simp: handleAddRow_def keysDistinct_def rowsComplete_def columnKeys_def Let_def)
qed


lemma handleDeleteSelectedRows_invariants:
  assumes "keysDistinct s" and "rowsComplete s"
  shows "keysDistinct (handleDeleteSelectedRows numStr ids s)
         \<and> rowsComplete (handleDeleteSelectedRows numStr ids s)"
  using assms
  by (simp add: handleDeleteSelectedRows_def keysDistinct_def rowsComplete_def columnKeys_def)

lemma onCellChange_invariants:
  assumes "keysDistinct s" and "rowsComplete s"
  shows "keysDistinct (onCellChange rowIndex k v s) \<and> rowsComplete (onCellChange rowIndex k v s)"
proof -
  have "row' k' \<noteq> None"
    if "row' \<in> set (map (\<lambda>(i, row). if i = rowIndex then row(k \<mapsto> v) else row)
                     (enumerate 0 (rows s)))"
      and "k' \<in> set (columnKeys s)" for row' k'
  proof -
    from that(1) obtain i row where "(i, row) \<in> set (enumerate 0 (rows s))"
      and r: "row' = (if i = rowIndex then row(k \<mapsto> v) else row)" by auto
    then have "row \<in> set (rows s)" by (auto simp: in_set_enumerate_eq)
    with assms(2) that(2) have "row k' \<noteq> None" by (auto simp: rowsComplete_def)
    with r show ?thesis by auto
  qed
  then show ?thesis
    using assms(1)
    by (auto simp: onCellChange_def keysDistinct_def rowsComplete_def columnKeys_def)
qed

text \<open>
  No handler introduces the key \<^verbatim>\<open>__proto__\<close> unless it is the name submitted in the
  dialog: the generated names end in a parenthesis or start with a capital letter.
\<close>

lemma renameColumn_keys:
  "columnKeys (renameColumn oldKey cand t opts s) = columnKeys s
   \<or> columnKeys (renameColumn oldKey cand t opts s)
       = map (\<lambda>k. if k = oldKey then trim cand else k) (columnKeys s)"
proof (cases "trim cand = [] \<or> (trim cand \<noteq> oldKey \<and> trim cand \<in> set (columnKeys s))")
  case True
  then show ?thesis by (simp add: columnKeys_def renameColumn_rejected(1))
next
  case False
  then have c: "trim cand \<noteq> []" "trim cand = oldKey \<or> trim cand \<notin> set (columnKeys s)"
    by auto
  show ?thesis
    unfolding columnKeys_def renameColumn_columns [OF c] keys_of_renamed by simp
qed

lemma insertColumn_keys:
  "columnKeys (insertColumn anchor side cand t opts s) = columnKeys s
   \<or> (\<exists>n. columnKeys (insertColumn anchor side cand t opts s)
         = take n (columnKeys s) @ [trim cand] @ drop n (columnKeys s))"
proof (cases "trim cand = [] \<or> trim cand \<in> set (columnKeys s)")
  case True
  then show ?thesis by (simp add: columnKeys_def insertColumn_rejected(1))
next
  case False
  then have c: "trim cand \<noteq> []" "trim cand \<notin> set (columnKeys s)" by auto
  have "\<exists>n. columnKeys (insertColumn anchor side cand t opts s)
         = take n (columnKeys s) @ [trim cand] @ drop n (columnKeys s)"
    unfolding columnKeys_def insertColumn_unfold(1) [OF c] Let_def slice_from_start sliceFrom_def
    by (simp add: take_map drop_map) blast
  then show ?thesis ..
qed

lemma onDuplicate_keys:
  "columnKeys (onDuplicate k s) = columnKeys s
   \<or> (\<exists>n. columnKeys (onDuplicate k s)
         = take n (columnKeys s) @ [dupLoop (columnKeys s) k (k @ '' (copy)'') 2]
           @ drop n (columnKeys s))"
proof (cases "find (\<lambda>c. key c = k) (columnConfigs s)")
  case None
  then show ?thesis by (simp add: onDuplicate_def)
next
  case (Some config)
  define n where "n = clampIdx (indexOf (columnKeys s) k + 1) (length (columnConfigs s))"
  have "columnConfigs (onDuplicate k s)
      = take n (columnConfigs s)
        @ [config\<lparr>key := dupLoop (columnKeys s) k (k @ '' (copy)'') 2\<rparr>]
        @ drop n (columnConfigs s)"
    by (simp add: onDuplicate_def Some Let_def slice_from_start sliceFrom_def n_def)
  then have "columnKeys (onDuplicate k s)
         = take n (columnKeys s) @ [dupLoop (columnKeys s) k (k @ '' (copy)'') 2]
           @ drop n (columnKeys s)"
    by (simp add: columnKeys_def take_map drop_map)
  then show ?thesis by blast
qed

lemma applyMutation_protoFree:
  assumes "protoFree s" and "namesProtoFree m"
  shows "protoFree (applyMutation numStr s m)"
proof (cases m)
  case (RenameColumn oldKey cand t opts)
  with assms renameColumn_keys [of oldKey cand t opts s] show ?thesis
    by (auto simp: protoFree_def)
next
  case (InsertColumn anchor side cand t opts)
  with assms insertColumn_keys [of anchor side cand t opts s] show ?thesis
    by (auto simp: protoFree_def dest: in_set_takeD in_set_dropD)
next
  case (DuplicateColumn k)
  have "dupLoop (columnKeys s) k (k @ '' (copy)'') 2 \<noteq> ''__proto__''"
    by (rule dupLoop_avoids) (rule copy_names_not_proto)+
  with DuplicateColumn assms onDuplicate_keys [of k s] show ?thesis
    by (auto simp: protoFree_def dest: in_set_takeD in_set_dropD)
next
  case (QuickAddColumn t)
  have "quickAddLoop (columnKeys s) (COLUMN_TYPE_LABELS t) (COLUMN_TYPE_LABELS t) 2
      \<noteq> ''__proto__''"
    by (rule quickAddLoop_avoids) (rule label_names_not_proto)+
  with QuickAddColumn assms show ?thesis
    by (cases "t = T_select")
      (auto simp: protoFree_def columnKeys_def handleQuickAdd_effect(1)
        handleQuickAdd_select_effect(1))
next
  case (DeleteColumn k)
  with assms show ?thesis by (auto simp: protoFree_def columnKeys_def onDelete_def)
next
  case (HideColumn k)
  with assms show ?thesis by (simp add: protoFree_def columnKeys_def onHide_def)
next
  case (AddRow uuid)
  with assms show ?thesis by (simp add: protoFree_def columnKeys_def handleAddRow_def Let_def)
next
  case (DeleteRows ids)
  with assms show ?thesis
    by (simp add: protoFree_def columnKeys_def handleDeleteSelectedRows_def)
next
  case (SetCellValue rowIndex k v)
  with assms show ?thesis by (simp add: protoFree_def columnKeys_def onCellChange_def)
qed

lemma applyMutation_invariants:
  assumes "keysDistinct s" and "rowsComplete s" and "protoFree s"
  shows "keysDistinct (applyMutation numStr s m) \<and> rowsComplete (applyMutation numStr s m)"
proof (cases m)
  case (RenameColumn oldKey cand t opts)
  then show ?thesis using renameColumn_invariants [OF assms(1,2)] by simp
next
  case (InsertColumn anchor side cand t opts)
  then show ?thesis using insertColumn_invariants [OF assms(1,2)] by simp
next
  case (DuplicateColumn k)
  then show ?thesis using onDuplicate_invariants [OF assms(1,2)] by simp
next
  case (QuickAddColumn t)
  then show ?thesis using handleQuickAdd_invariants [OF assms(1,2)] by simp
next
  case (DeleteColumn k)
  then show ?thesis using onDelete_invariants [OF assms(1,2)] by simp
next
  case (HideColumn k)
  then show ?thesis using onHide_invariants [OF assms(1,2)] by simp
next
  case (AddRow uuid)
  then show ?thesis using handleAddRow_invariants [OF assms] by simp
next
  case (DeleteRows ids)
  then show ?thesis using handleDeleteSelectedRows_invariants [OF assms(1,2)] by simp
next
  case (SetCellValue rowIndex k v)
  then show ?thesis using onCellChange_invariants [OF assms(1,2)] by simp
qed

lemma renameColumn_keys_fresh:
  "columnKeys (renameColumn oldKey cand t opts s) = columnKeys s
   \<or> (trim cand \<notin> set (columnKeys s)
       \<and> columnKeys (renameColumn oldKey cand t opts s)
           = map (\<lambda>k. if k = oldKey then trim cand else k) (columnKeys s))"
proof (cases "trim cand = [] \<or> (trim cand \<noteq> oldKey \<and> trim cand \<in> set (columnKeys s))")
  case True
  then show ?thesis by (simp add: columnKeys_def renameColumn_rejected(1))
next
  case False
  then have c: "trim cand \<noteq> []" "trim cand = oldKey \<or> trim cand \<notin> set (columnKeys s)"
    by auto
  have k: "columnKeys (renameColumn oldKey cand t opts s)
           = map (\<lambda>k. if k = oldKey then trim cand else k) (columnKeys s)"
    unfolding columnKeys_def renameColumn_columns [OF c] keys_of_renamed ..
  show ?thesis
  proof (cases "trim cand = oldKey")
    case True
    then have "map (\<lambda>k. if k = oldKey then trim cand else k) (columnKeys s) = columnKeys s"
      by (simp add: map_idI)
    with k show ?thesis by simp
  next
    case False
    with c k show ?thesis by simp
  qed
qed

lemma insertColumn_keys_fresh:
  "columnKeys (insertColumn anchor side cand t opts s) = columnKeys s
   \<or> (trim cand \<notin> set (columnKeys s)
       \<and> (\<exists>n. columnKeys (insertColumn anchor side cand t opts s)
             = take n (columnKeys s) @ [trim cand] @ drop n (columnKeys s)))"
proof (cases "trim cand = [] \<or> trim cand \<in> set (columnKeys s)")
  case True
  then show ?thesis by (simp add: columnKeys_def insertColumn_rejected(1))
next
  case False
  then have c: "trim cand \<noteq> []" "trim cand \<notin> set (columnKeys s)" by auto
  have "\<exists>n. columnKeys (insertColumn anchor side cand t opts s)
         = take n (columnKeys s) @ [trim cand] @ drop n (columnKeys s)"
    unfolding columnKeys_def insertColumn_unfold(1) [OF c] Let_def slice_from_start sliceFrom_def
    by (simp add: take_map drop_map) blast
  with c(2) show ?thesis by blast
qed

lemma applyMutation_keysDistinct:
  assumes "keysDistinct s"
  shows "keysDistinct (applyMutation numStr s m)"
proof (cases m)
  case (RenameColumn oldKey cand t opts)
  with assms renameColumn_keys_fresh [of oldKey cand t opts s] show ?thesis
    by (auto simp: keysDistinct_def intro: distinct_rename)
next
  case (InsertColumn anchor side cand t opts)
  from insertColumn_keys_fresh [of anchor side cand t opts s] show ?thesis
  proof
    assume "columnKeys (insertColumn anchor side cand t opts s) = columnKeys s"
    with assms InsertColumn show ?thesis by (simp add: keysDistinct_def)
  next
    assume "trim cand \<notin> set (columnKeys s)
       \<and> (\<exists>n. columnKeys (insertColumn anchor side cand t opts s)
             = take n (columnKeys s) @ [trim cand] @ drop n (columnKeys s))"
    then obtain n where fresh: "trim cand \<notin> set (columnKeys s)"
      and k: "columnKeys (insertColumn anchor side cand t opts s)
             = take n (columnKeys s) @ [trim cand] @ drop n (columnKeys s)" by blast
    from assms have "distinct (columnKeys s)" by (simp add: keysDistinct_def)
    from distinct_insert_at [OF this fresh, of n] InsertColumn show ?thesis
      by (simp only: keysDistinct_def k applyMutation.simps)
  qed
next
  case (DuplicateColumn k)
  from onDuplicate_keys [of k s] show ?thesis
  proof
    assume "columnKeys (onDuplicate k s) = columnKeys s"
    with assms DuplicateColumn show ?thesis by (simp add: keysDistinct_def)
  next
    assume "\<exists>n. columnKeys (onDuplicate k s)
         = take n (columnKeys s) @ [dupLoop (columnKeys s) k (k @ '' (copy)'') 2]
           @ drop n (columnKeys s)"
    then obtain n where kk: "columnKeys (onDuplicate k s)
         = take n (columnKeys s) @ [dupLoop (columnKeys s) k (k @ '' (copy)'') 2]
           @ drop n (columnKeys s)" by blast
    from assms have "distinct (columnKeys s)" by (simp add: keysDistinct_def)
    from distinct_insert_at [OF this dupLoop_fresh, of n k "k @ '' (copy)''" 2] DuplicateColumn
    show ?thesis
      by (simp only: keysDistinct_def kk applyMutation.simps)
  qed
next
  case (QuickAddColumn t)
  with assms quickAddLoop_fresh [of "columnKeys s" "COLUMN_TYPE_LABELS t" "COLUMN_TYPE_LABELS t" 2]
  show ?thesis
    by (cases "t = T_select")
      (auto simp: keysDistinct_def columnKeys_def handleQuickAdd_effect(1)
        handleQuickAdd_select_effect(1))
next
  case (DeleteColumn k)
  with assms show ?thesis
    by (auto simp: keysDistinct_def columnKeys_def onDelete_def distinct_map_filter)
next
  case (HideColumn k)
  with assms show ?thesis by (simp add: keysDistinct_def columnKeys_def onHide_def)
next
  case (AddRow uuid)
  with assms show ?thesis by (simp add: keysDistinct_def columnKeys_def handleAddRow_def Let_def)
next
  case (DeleteRows ids)
  with assms show ?thesis
    by (simp add: keysDistinct_def columnKeys_def handleDeleteSelectedRows_def)
next
  case (SetCellValue rowIndex k v)
  with assms show ?thesis by (simp add: keysDistinct_def columnKeys_def onCellChange_def)
qed

text \<open>
  The first invariant alone is kept by every sequence of mutations, from every table.
\<close>

lemma keysDistinct_preserved:
  "keysDistinct s \<Longrightarrow> keysDistinct (foldl (applyMutation numStr) s ms)"
  by (induction ms arbitrary: s) (simp_all add: applyMutation_keysDistinct)

text \<open>
  From a table whose column keys are pairwise distinct, none of them \<^verbatim>\<open>__proto__\<close>, and
  whose rows each have an entry for every column key, every sequence of mutations that
  names no column \<^verbatim>\<open>__proto__\<close> leads to a table with the same properties.
\<close>

lemma invariants_preserved_without_proto:
  assumes "keysDistinct s" and "rowsComplete s" and "protoFree s"
    and "list_all namesProtoFree ms"
  shows "keysDistinct (foldl (applyMutation numStr) s ms)
         \<and> rowsComplete (foldl (applyMutation numStr) s ms)
         \<and> protoFree (foldl (applyMutation numStr) s ms)"
  using assms
proof (induction ms arbitrary: s)
  case Nil
  then show ?case by simp
next
  case (Cons m ms)
  from Cons.prems have m: "namesProtoFree m" and ms: "list_all namesProtoFree ms" by simp_all
  note inv = applyMutation_invariants [OF Cons.prems(1-3), of numStr m]
  note pf = applyMutation_protoFree [OF Cons.prems(3) m, of numStr]
  from Cons.IH [OF inv [THEN conjunct1] inv [THEN conjunct2] pf ms]
  show ?case by simp
qed

lemma invariants_preserved_demo:
  "keysDistinct demoState \<and> rowsComplete demoState \<and> protoFree demoState
   \<and> list_all namesProtoFree demoMutations
   \<and> keysDistinct (foldl (applyMutation show_nat) demoState demoMutations)
   \<and> rowsComplete (foldl (applyMutation show_nat) demoState demoMutations)
   \<and> columnKeys (foldl (applyMutation show_nat) demoState demoMutations)
       = [''state'', ''Phone'', ''amount'', ''amount (copy 2)'', ''amount (copy)'',
          ''Text'', ''Text 2'']"
proof -
  have h: "keysDistinct demoState" "rowsComplete demoState" "protoFree demoState"
    by (simp_all add: keysDistinct_def rowsComplete_def protoFree_def demo_facts demoRow_def)
  have n: "list_all namesProtoFree demoMutations"
    by (simp add: demoMutations_def trim_def is_space_def)
  have k: "columnKeys (foldl (applyMutation show_nat) demoState demoMutations)
       = [''state'', ''Phone'', ''amount'', ''amount (copy 2)'', ''amount (copy)'',
          ''Text'', ''Text 2'']"
    by code_simp
  from invariants_preserved_without_proto [OF h n, of show_nat] h n k show ?thesis by simp
qed

text \<open>
  Claim C1 says that from a table whose column keys are pairwise distinct and whose rows
  each have an entry for every column key, every sequence of mutations (rename, insert,
  duplicate, quick-add, delete and hide a column, add a row, delete rows, set a cell)
  leads to a table with the same two properties. The code does not keep the second one:
  on the demo table, inserting a column named \<^verbatim>\<open>__proto__\<close> gives the existing row an
  entry under that key, and adding a row then creates a row without one, since
  \<^verbatim>\<open>handleAddRow\<close> fills the row by assignment and an assignment to \<^verbatim>\<open>__proto__\<close>
  stores nothing. The column keys are \<open>status\<close>, \<open>email\<close>, \<open>__proto__\<close>,
  \<open>amount\<close>; the second row has its default entry under \<open>amount\<close> and none under
  \<open>__proto__\<close>.
\<close>

theorem addRow_skips_proto_key:
  "columnKeys (foldl (applyMutation show_nat) demoState protoMutations)
     = [''status'', ''email'', ''__proto__'', ''amount'']
   \<and> length (rows (foldl (applyMutation show_nat) demoState protoMutations)) = 2
   \<and> (rows (foldl (applyMutation show_nat) demoState protoMutations) ! 0) ''__proto__''
       = Some (JStr [])
   \<and> (rows (foldl (applyMutation show_nat) demoState protoMutations) ! 1) ''__proto__'' = None
   \<and> (rows (foldl (applyMutation show_nat) demoState protoMutations) ! 1) ''amount''
       = Some (JStr [])"
  by code_simp

text \<open>In terms of the two invariants: both hold before, the second fails after.\<close>

lemma invariants_broken_by_proto_key:
  "keysDistinct demoState \<and> rowsComplete demoState
   \<and> keysDistinct (foldl (applyMutation show_nat) demoState protoMutations)
   \<and> \<not> rowsComplete (foldl (applyMutation show_nat) demoState protoMutations)"
  by code_simp

end
